theory Spec2Isabelle
  imports Main
begin

section \<open>blockchain/error.go: the error taxonomy\<close>

subsection \<open>AssertError\<close>

text \<open>
  \<^verbatim>\<open>type AssertError string\<close>: a string under another name. Its \<^verbatim>\<open>Error\<close> method
  prefixes the text with \<^verbatim>\<open>"assertion failed: "\<close>.
\<close>

type_synonym AssertError = string

definition AssertError_Error :: "AssertError \<Rightarrow> string" where
  "AssertError_Error e = ''assertion failed: '' @ e"

subsection \<open>ErrorCode and its constants\<close>

text \<open>
  \<^verbatim>\<open>type ErrorCode int\<close>. No arithmetic is ever done on a code, so the machine width of
  Go's \<^verbatim>\<open>int\<close> plays no role and a code is modelled as an integer. The constant block
  starts with \<^verbatim>\<open>ErrDuplicateBlock ErrorCode = iota\<close>, so the constants are numbered
  0, 1, 2, ... in the order they are written.
\<close>

type_synonym ErrorCode = int

definition ErrDuplicateBlock :: ErrorCode where "ErrDuplicateBlock = 0"
definition ErrBlockTooBig :: ErrorCode where "ErrBlockTooBig = 1"
definition ErrBlockVersionTooOld :: ErrorCode where "ErrBlockVersionTooOld = 2"
definition ErrInvalidTime :: ErrorCode where "ErrInvalidTime = 3"
definition ErrTimeTooOld :: ErrorCode where "ErrTimeTooOld = 4"
definition ErrTimeTooNew :: ErrorCode where "ErrTimeTooNew = 5"
definition ErrDifficultyTooLow :: ErrorCode where "ErrDifficultyTooLow = 6"
definition ErrUnexpectedDifficulty :: ErrorCode where "ErrUnexpectedDifficulty = 7"
definition ErrBadHeight :: ErrorCode where "ErrBadHeight = 8"
definition ErrBadBlockSignature :: ErrorCode where "ErrBadBlockSignature = 9"
definition ErrHighHash :: ErrorCode where "ErrHighHash = 10"
definition ErrBadMerkleRoot :: ErrorCode where "ErrBadMerkleRoot = 11"
definition ErrBadCheckpoint :: ErrorCode where "ErrBadCheckpoint = 12"
definition ErrForkTooOld :: ErrorCode where "ErrForkTooOld = 13"
definition ErrCheckpointTimeTooOld :: ErrorCode where "ErrCheckpointTimeTooOld = 14"
definition ErrNoTransactions :: ErrorCode where "ErrNoTransactions = 15"
definition ErrTooManyTransactions :: ErrorCode where "ErrTooManyTransactions = 16"
definition ErrNoTxInputs :: ErrorCode where "ErrNoTxInputs = 17"
definition ErrNoTxOutputs :: ErrorCode where "ErrNoTxOutputs = 18"
definition ErrTxTooBig :: ErrorCode where "ErrTxTooBig = 19"
definition ErrBadTxOutValue :: ErrorCode where "ErrBadTxOutValue = 20"
definition ErrDuplicateTxInputs :: ErrorCode where "ErrDuplicateTxInputs = 21"
definition ErrBadTxInput :: ErrorCode where "ErrBadTxInput = 22"
definition ErrMissingTx :: ErrorCode where "ErrMissingTx = 23"
definition ErrUnfinalizedTx :: ErrorCode where "ErrUnfinalizedTx = 24"
definition ErrDuplicateTx :: ErrorCode where "ErrDuplicateTx = 25"
definition ErrOverwriteTx :: ErrorCode where "ErrOverwriteTx = 26"
definition ErrImmatureSpend :: ErrorCode where "ErrImmatureSpend = 27"
definition ErrDoubleSpend :: ErrorCode where "ErrDoubleSpend = 28"
definition ErrSpendTooHigh :: ErrorCode where "ErrSpendTooHigh = 29"
definition ErrBadFees :: ErrorCode where "ErrBadFees = 30"
definition ErrTooManySigOps :: ErrorCode where "ErrTooManySigOps = 31"
definition ErrFirstTxNotCoinbase :: ErrorCode where "ErrFirstTxNotCoinbase = 32"
definition ErrMultipleCoinbases :: ErrorCode where "ErrMultipleCoinbases = 33"
definition ErrBadCoinbaseScriptLen :: ErrorCode where "ErrBadCoinbaseScriptLen = 34"
definition ErrBadCoinbaseValue :: ErrorCode where "ErrBadCoinbaseValue = 35"
definition ErrScriptMalformed :: ErrorCode where "ErrScriptMalformed = 36"
definition ErrScriptValidation :: ErrorCode where "ErrScriptValidation = 37"
definition ErrExcessiveChainShare :: ErrorCode where "ErrExcessiveChainShare = 38"
definition ErrExcessiveTrailing :: ErrorCode where "ErrExcessiveTrailing = 39"
definition ErrInconsistentBlkSize :: ErrorCode where "ErrInconsistentBlkSize = 40"
definition ErrInvalidCoinbase :: ErrorCode where "ErrInvalidCoinbase = 41"
definition ErrInvalidTx :: ErrorCode where "ErrInvalidTx = 42"
definition ErrInvalidValidateKey :: ErrorCode where "ErrInvalidValidateKey = 43"
definition ErrInvalidAdminTx :: ErrorCode where "ErrInvalidAdminTx = 44"
definition ErrInvalidAdminOp :: ErrorCode where "ErrInvalidAdminOp = 45"
definition ErrFeeTooHigh :: ErrorCode where "ErrFeeTooHigh = 46"

lemmas ErrorCode_defs =
  ErrDuplicateBlock_def ErrBlockTooBig_def ErrBlockVersionTooOld_def ErrInvalidTime_def
  ErrTimeTooOld_def ErrTimeTooNew_def ErrDifficultyTooLow_def ErrUnexpectedDifficulty_def
  ErrBadHeight_def ErrBadBlockSignature_def ErrHighHash_def ErrBadMerkleRoot_def
  ErrBadCheckpoint_def ErrForkTooOld_def ErrCheckpointTimeTooOld_def ErrNoTransactions_def
  ErrTooManyTransactions_def ErrNoTxInputs_def ErrNoTxOutputs_def ErrTxTooBig_def
  ErrBadTxOutValue_def ErrDuplicateTxInputs_def ErrBadTxInput_def ErrMissingTx_def
  ErrUnfinalizedTx_def ErrDuplicateTx_def ErrOverwriteTx_def ErrImmatureSpend_def
  ErrDoubleSpend_def ErrSpendTooHigh_def ErrBadFees_def ErrTooManySigOps_def
  ErrFirstTxNotCoinbase_def ErrMultipleCoinbases_def ErrBadCoinbaseScriptLen_def
  ErrBadCoinbaseValue_def ErrScriptMalformed_def ErrScriptValidation_def
  ErrExcessiveChainShare_def ErrExcessiveTrailing_def ErrInconsistentBlkSize_def
  ErrInvalidCoinbase_def ErrInvalidTx_def ErrInvalidValidateKey_def ErrInvalidAdminTx_def
  ErrInvalidAdminOp_def ErrFeeTooHigh_def

text \<open>The constants of the block, in the order of the source.\<close>

definition defined_codes :: "ErrorCode list" where
  "defined_codes =
    [ErrDuplicateBlock, ErrBlockTooBig, ErrBlockVersionTooOld, ErrInvalidTime,
     ErrTimeTooOld, ErrTimeTooNew, ErrDifficultyTooLow, ErrUnexpectedDifficulty,
     ErrBadHeight, ErrBadBlockSignature, ErrHighHash, ErrBadMerkleRoot,
     ErrBadCheckpoint, ErrForkTooOld, ErrCheckpointTimeTooOld, ErrNoTransactions,
     ErrTooManyTransactions, ErrNoTxInputs, ErrNoTxOutputs, ErrTxTooBig,
     ErrBadTxOutValue, ErrDuplicateTxInputs, ErrBadTxInput, ErrMissingTx,
     ErrUnfinalizedTx, ErrDuplicateTx, ErrOverwriteTx, ErrImmatureSpend,
     ErrDoubleSpend, ErrSpendTooHigh, ErrBadFees, ErrTooManySigOps,
     ErrFirstTxNotCoinbase, ErrMultipleCoinbases, ErrBadCoinbaseScriptLen,
     ErrBadCoinbaseValue, ErrScriptMalformed, ErrScriptValidation,
     ErrExcessiveChainShare, ErrExcessiveTrailing, ErrInconsistentBlkSize,
     ErrInvalidCoinbase, ErrInvalidTx, ErrInvalidValidateKey, ErrInvalidAdminTx,
     ErrInvalidAdminOp, ErrFeeTooHigh]"

subsection \<open>The name table and \<^verbatim>\<open>ErrorCode.String\<close>\<close>

text \<open>
  \<^verbatim>\<open>errorCodeStrings\<close> is a map literal; it is kept as the list of its entries in
  source order and read through \<open>map_of\<close>. Indexing a Go map with a key it does not
  hold yields the zero value of the element type, here the empty string.
\<close>

definition errorCodeStrings :: "(ErrorCode \<times> string) list" where
  "errorCodeStrings =
    [(ErrDuplicateBlock, ''ErrDuplicateBlock''),
     (ErrBlockTooBig, ''ErrBlockTooBig''),
     (ErrBlockVersionTooOld, ''ErrBlockVersionTooOld''),
     (ErrInvalidTime, ''ErrInvalidTime''),
     (ErrTimeTooOld, ''ErrTimeTooOld''),
     (ErrTimeTooNew, ''ErrTimeTooNew''),
     (ErrDifficultyTooLow, ''ErrDifficultyTooLow''),
     (ErrUnexpectedDifficulty, ''ErrUnexpectedDifficulty''),
     (ErrBadHeight, ''ErrBadHeight''),
     (ErrBadBlockSignature, ''ErrBadBlockSignature''),
     (ErrHighHash, ''ErrHighHash''),
     (ErrBadMerkleRoot, ''ErrBadMerkleRoot''),
     (ErrBadCheckpoint, ''ErrBadCheckpoint''),
     (ErrForkTooOld, ''ErrForkTooOld''),
     (ErrCheckpointTimeTooOld, ''ErrCheckpointTimeTooOld''),
     (ErrNoTransactions, ''ErrNoTransactions''),
     (ErrTooManyTransactions, ''ErrTooManyTransactions''),
     (ErrNoTxInputs, ''ErrNoTxInputs''),
     (ErrNoTxOutputs, ''ErrNoTxOutputs''),
     (ErrTxTooBig, ''ErrTxTooBig''),
     (ErrBadTxOutValue, ''ErrBadTxOutValue''),
     (ErrDuplicateTxInputs, ''ErrDuplicateTxInputs''),
     (ErrBadTxInput, ''ErrBadTxInput''),
     (ErrMissingTx, ''ErrMissingTx''),
     (ErrUnfinalizedTx, ''ErrUnfinalizedTx''),
     (ErrDuplicateTx, ''ErrDuplicateTx''),
     (ErrOverwriteTx, ''ErrOverwriteTx''),
     (ErrImmatureSpend, ''ErrImmatureSpend''),
     (ErrDoubleSpend, ''ErrDoubleSpend''),
     (ErrSpendTooHigh, ''ErrSpendTooHigh''),
     (ErrBadFees, ''ErrBadFees''),
     (ErrTooManySigOps, ''ErrTooManySigOps''),
     (ErrFirstTxNotCoinbase, ''ErrFirstTxNotCoinbase''),
     (ErrMultipleCoinbases, ''ErrMultipleCoinbases''),
     (ErrBadCoinbaseScriptLen, ''ErrBadCoinbaseScriptLen''),
     (ErrBadCoinbaseValue, ''ErrBadCoinbaseValue''),
     (ErrScriptMalformed, ''ErrScriptMalformed''),
     (ErrScriptValidation, ''ErrScriptValidation''),
     (ErrExcessiveChainShare, ''ErrExcessiveChainShare''),
     (ErrExcessiveTrailing, ''ErrExcessiveTrailing''),
     (ErrInconsistentBlkSize, ''ErrInconsistentBlkSize''),
     (ErrInvalidCoinbase, ''ErrInvalidCoinbase''),
     (ErrInvalidTx, ''ErrInvalidTx''),
     (ErrInvalidValidateKey, ''ErrInvalidValidateKey''),
     (ErrInvalidAdminTx, ''ErrInvalidAdminTx''),
     (ErrInvalidAdminOp, ''ErrInvalidAdminOp''),
     (ErrFeeTooHigh, ''ErrFeeTooHigh'')]"

definition map_index :: "('k \<times> string) list \<Rightarrow> 'k \<Rightarrow> string" where
  "map_index m k = (case map_of m k of None \<Rightarrow> '''' | Some s \<Rightarrow> s)"

text \<open>
  The verb \<^verbatim>\<open>%d\<close> of \<^verbatim>\<open>fmt.Sprintf\<close> on an \<^verbatim>\<open>int\<close>: base ten, most significant
  digit first, no leading zero, a minus sign before a negative number. As in the
  library, a digit is read out of the string of digits; \<open>digit_char\<close> is only ever
  applied to a number below ten.
\<close>

definition digit_char :: "nat \<Rightarrow> char" where
  "digit_char d = ''0123456789'' ! d"

function decimal :: "nat \<Rightarrow> string" where
  "decimal n = (if n < 10 then [digit_char n] else decimal (n div 10) @ [digit_char (n mod 10)])"
  by pat_completeness auto
termination
  by (relation "measure (\<lambda>n. n)") auto

declare decimal.simps [simp del]

definition fmt_d :: "int \<Rightarrow> string" where
  "fmt_d i = (if i < 0 then ''-'' @ decimal (nat (- i)) else decimal (nat i))"

definition ErrorCode_String :: "ErrorCode \<Rightarrow> string" where
  "ErrorCode_String e =
    (let s = map_index errorCodeStrings e
     in if s \<noteq> '''' then s else ''Unknown ErrorCode ('' @ fmt_d e @ '')'')"

subsection \<open>RuleError\<close>

record RuleError =
  ErrorCode :: ErrorCode
  Description :: string

definition RuleError_Error :: "RuleError \<Rightarrow> string" where
  "RuleError_Error e = Description e"

definition ruleError :: "ErrorCode \<Rightarrow> string \<Rightarrow> RuleError" where
  "ruleError c desc = \<lparr>ErrorCode = c, Description = desc\<rparr>"

subsection \<open>Values of the interface \<^verbatim>\<open>error\<close>\<close>

text \<open>
  A value of Go's interface type \<^verbatim>\<open>error\<close> carries its dynamic type. The two error
  types of the package are \<^verbatim>\<open>RuleError\<close> and \<^verbatim>\<open>AssertError\<close>; \<open>OtherError\<close> stands
  for a value of any other dynamic type, with the text its \<^verbatim>\<open>Error\<close> method returns.
  The type assertion \<^verbatim>\<open>rerr, ok := err.(RuleError)\<close> succeeds exactly on a value whose
  dynamic type is \<^verbatim>\<open>RuleError\<close>.
\<close>

datatype error =
    IsRuleError RuleError
  | IsAssertError AssertError
  | OtherError string

fun error_Error :: "error \<Rightarrow> string" where
  "error_Error (IsRuleError e) = RuleError_Error e"
| "error_Error (IsAssertError e) = AssertError_Error e"
| "error_Error (OtherError s) = s"

fun assert_RuleError :: "error \<Rightarrow> RuleError option" where
  "assert_RuleError (IsRuleError e) = Some e"
| "assert_RuleError _ = None"

section \<open>The taxonomy of the specification\<close>

text \<open>
  The error kinds that the specification's taxonomy lists, written after its words; a
  kind it joins with a slash ("empty/oversize transaction set") is split in two.
  \<open>kind_codes\<close> gives the constants of \<^verbatim>\<open>error.go\<close> whose comments describe the kind.
\<close>

datatype spec_kind =
    DuplicateBlock | OversizeBlock | StaleVersion | BadTimestamp | DifficultyMismatch
  | BadHeight | BadSignature | HighHash | BadMerkleRoot | CheckpointMismatch | ForkTooOld
  | EmptyTransactionSet | OversizeTransactionSet | MissingInputs | DuplicateInputs
  | OversizeTransaction | BadOutputValue | DuplicateTransaction | OverwrittenTransaction
  | ImmatureSpend | DoubleSpend | Overspend | BadFeesKind | ExcessiveSigOps
  | MalformedCoinbase | MalformedScript | FailingScript | ExcessiveChainShare
  | ExcessiveRunLength | InconsistentSize | InvalidAdminTransaction
  | InvalidAdminOperation | InvalidValidatingKey | ExcessiveFee

definition spec_kinds :: "spec_kind list" where
  "spec_kinds =
    [DuplicateBlock, OversizeBlock, StaleVersion, BadTimestamp, DifficultyMismatch,
     BadHeight, BadSignature, HighHash, BadMerkleRoot, CheckpointMismatch, ForkTooOld,
     EmptyTransactionSet, OversizeTransactionSet, MissingInputs, DuplicateInputs,
     OversizeTransaction, BadOutputValue, DuplicateTransaction, OverwrittenTransaction,
     ImmatureSpend, DoubleSpend, Overspend, BadFeesKind, ExcessiveSigOps,
     MalformedCoinbase, MalformedScript, FailingScript, ExcessiveChainShare,
     ExcessiveRunLength, InconsistentSize, InvalidAdminTransaction,
     InvalidAdminOperation, InvalidValidatingKey, ExcessiveFee]"

fun kind_codes :: "spec_kind \<Rightarrow> ErrorCode list" where
  "kind_codes DuplicateBlock = [ErrDuplicateBlock]"
| "kind_codes OversizeBlock = [ErrBlockTooBig]"
| "kind_codes StaleVersion = [ErrBlockVersionTooOld]"
| "kind_codes BadTimestamp =
     [ErrInvalidTime, ErrTimeTooOld, ErrTimeTooNew, ErrCheckpointTimeTooOld]"
| "kind_codes DifficultyMismatch = [ErrDifficultyTooLow, ErrUnexpectedDifficulty]"
| "kind_codes BadHeight = [ErrBadHeight]"
| "kind_codes BadSignature = [ErrBadBlockSignature]"
| "kind_codes HighHash = [ErrHighHash]"
| "kind_codes BadMerkleRoot = [ErrBadMerkleRoot]"
| "kind_codes CheckpointMismatch = [ErrBadCheckpoint]"
| "kind_codes ForkTooOld = [ErrForkTooOld]"
| "kind_codes EmptyTransactionSet = [ErrNoTransactions]"
| "kind_codes OversizeTransactionSet = [ErrTooManyTransactions]"
| "kind_codes MissingInputs = [ErrNoTxInputs, ErrMissingTx]"
| "kind_codes DuplicateInputs = [ErrDuplicateTxInputs]"
| "kind_codes OversizeTransaction = [ErrTxTooBig]"
| "kind_codes BadOutputValue = [ErrBadTxOutValue]"
| "kind_codes DuplicateTransaction = [ErrDuplicateTx]"
| "kind_codes OverwrittenTransaction = [ErrOverwriteTx]"
| "kind_codes ImmatureSpend = [ErrImmatureSpend]"
| "kind_codes DoubleSpend = [ErrDoubleSpend]"
| "kind_codes Overspend = [ErrSpendTooHigh]"
| "kind_codes BadFeesKind = [ErrBadFees]"
| "kind_codes ExcessiveSigOps = [ErrTooManySigOps]"
| "kind_codes MalformedCoinbase =
     [ErrFirstTxNotCoinbase, ErrMultipleCoinbases, ErrBadCoinbaseScriptLen,
      ErrBadCoinbaseValue, ErrInvalidCoinbase]"
| "kind_codes MalformedScript = [ErrScriptMalformed]"
| "kind_codes FailingScript = [ErrScriptValidation]"
| "kind_codes ExcessiveChainShare = [ErrExcessiveChainShare]"
| "kind_codes ExcessiveRunLength = [ErrExcessiveTrailing]"
| "kind_codes InconsistentSize = [ErrInconsistentBlkSize]"
| "kind_codes InvalidAdminTransaction = [ErrInvalidAdminTx]"
| "kind_codes InvalidAdminOperation = [ErrInvalidAdminOp]"
| "kind_codes InvalidValidatingKey = [ErrInvalidValidateKey]"
| "kind_codes ExcessiveFee = [ErrFeeTooHigh]"

text \<open>
  Reading a decimal numeral back: the value of a string of digits. It is used only to
  state that \<open>decimal\<close> writes the number it is given.
\<close>

definition digits_value :: "string \<Rightarrow> nat" where
  "digits_value ds = foldl (\<lambda>a c. 10 * a + (of_char c - 48)) 0 ds"



section \<open>The test of \<^verbatim>\<open>ProcessBlock\<close>: what the harness checks\<close>

text \<open>
  The three closures of \<^verbatim>\<open>TestFullBlocks\<close> that call \<^verbatim>\<open>chain.ProcessBlock\<close> and judge
  its three results \<^verbatim>\<open>(isMainChain, isOrphan, err)\<close>. \<^verbatim>\<open>t.Fatalf\<close> ends the test, so each
  closure is a function from the results to a verdict; the text of a failure is
  shortened to its fixed part. A nil \<^verbatim>\<open>err\<close> is \<open>None\<close>.
\<close>

datatype verdict = Pass | Fatal string

type_synonym process_result = "bool \<times> bool \<times> error option"

text \<open>
  \<^verbatim>\<open>testAcceptedBlock\<close> makes four checks: the error, the two flags against the
  item's, and last the item's \<^verbatim>\<open>AdminKey\<close> against \<^verbatim>\<open>stateKeys\<close>, which is
  \<^verbatim>\<open>chain.AdminKeySets()[btcec.IssuingKeySet]\<close> read after the call. \<open>stateKeys\<close> is an
  argument here, and a nil \<^verbatim>\<open>item.AdminKey\<close> is \<open>None\<close>. The method \<^verbatim>\<open>Pos\<close> is of
  package \<^verbatim>\<open>btcec\<close>, which is not among the source files: it gives the position of a
  key in a key set, and the closure asks only whether it is negative, which is read as
  the key not being in the set.
\<close>

definition testAcceptedBlock :: "bool \<Rightarrow> bool \<Rightarrow> 'k option \<Rightarrow> process_result \<Rightarrow> 'k set \<Rightarrow> verdict" where
  "testAcceptedBlock wantMainChain wantOrphan adminKey res stateKeys =
    (case res of (isMainChain, isOrphan, err) \<Rightarrow>
      if err \<noteq> None then Fatal ''should have been accepted''
      else if isMainChain \<noteq> wantMainChain then Fatal ''unexpected main chain flag''
      else if isOrphan \<noteq> wantOrphan then Fatal ''unexpected orphan flag''
      else
        (case adminKey of
           None \<Rightarrow> Pass
         | Some key \<Rightarrow>
             if key \<notin> stateKeys then Fatal ''should have admin key'' else Pass))"

definition testRejectedBlock :: "ErrorCode \<Rightarrow> process_result \<Rightarrow> verdict" where
  "testRejectedBlock rejectCode res =
    (case res of (_, _, err) \<Rightarrow>
      (case err of
        None \<Rightarrow> Fatal ''should not have been accepted''
      | Some e \<Rightarrow>
          (case assert_RuleError e of
            None \<Rightarrow> Fatal ''returned unexpected error type''
          | Some rerr \<Rightarrow>
              if ErrorCode rerr \<noteq> rejectCode then Fatal ''does not have expected reject code''
              else Pass)))"

definition testOrphanOrRejectedBlock :: "process_result \<Rightarrow> verdict" where
  "testOrphanOrRejectedBlock res =
    (case res of (_, isOrphan, err) \<Rightarrow>
      (case (case err of None \<Rightarrow> None | Some e \<Rightarrow>
               (case assert_RuleError e of
                  None \<Rightarrow> Some (Fatal ''returned unexpected error type'')
                | Some rerr \<Rightarrow> None)) of
         Some failure \<Rightarrow> failure
       | None \<Rightarrow>
           if \<not> isOrphan then Fatal ''was accepted, but is not considered an orphan''
           else Pass))"

section \<open>The engine, modelled from the specification\<close>

text \<open>
  Modelled from the spec: \<^verbatim>\<open>ProcessBlock\<close> and everything under it
  (the validators, the chain-state store, connect and disconnect, the reorganization and
  the orphan pool) are code of this repository that is not among the source files; only
  the error taxonomy and the test that calls \<^verbatim>\<open>ProcessBlock\<close> are.
  The definitions of this section follow sections 2 to 7 of the specification. Each names
  the sentences it renders, and says so where the specification leaves a choice open and
  the model makes one.
\<close>

subsection \<open>Data model (specification, section 3)\<close>

type_synonym hash = nat
type_synonym identity = nat
type_synonym outpoint = "hash \<times> nat"

datatype role = Issuing | Provisioning | Validating

type_synonym admin_keys = "role \<Rightarrow> identity set"

text \<open>
  Modelled from the spec: section 4.4, an admin operation "adds or removes exactly one
  identity from exactly one role's set".
\<close>

datatype admin_op = AddKey role identity | RevokeKey role identity

record tx_out =
  out_amount :: int
  out_script :: nat

text \<open>
  Modelled from the spec: section 3, a transaction is its hash, the outputs it spends
  ("each referencing a previous output by transaction hash + index"), the outputs it makes
  ("each an amount + script/identity binding"), and the admin operations it carries with
  the identity that submits them. The coinbase is the transaction with "zero real inputs".
  A block is its header fields, its cached hash, its assigned height and its transactions.
\<close>

record transaction =
  tx_hash :: hash
  tx_inputs :: "outpoint list"
  tx_outputs :: "tx_out list"
  tx_admin :: "admin_op list"
  tx_submitter :: identity

record block =
  blk_hash :: hash
  blk_prev :: hash
  blk_version :: int
  blk_merkle_root :: hash
  blk_timestamp :: nat
  blk_bits :: nat
  blk_nonce :: nat
  blk_signature :: nat
  blk_height :: nat
  blk_txs :: "transaction list"

record utxo_entry =
  entry_amount :: int
  entry_coinbase :: bool
  entry_height :: nat

type_synonym utxo_set = "outpoint \<rightharpoonup> utxo_entry"

text \<open>
  Modelled from the spec: section 3, a chain node is "hash, parent reference (by hash
  lookup), height, cumulative work" and "the admin-key-set snapshot valid at that node".
  The validation status of the data model is left out: no operation of the model reads it.
\<close>

record chain_node =
  node_hash :: hash
  node_parent :: hash
  node_height :: nat
  node_work :: nat
  node_keys :: admin_keys

text \<open>
  Modelled from the spec: the chain-state store of section 5 (UTXO set, chain-node index,
  admin-key snapshots, the latter inside the nodes) with the identity of the best tip, the
  blocks of the nodes, and the orphan pool with the expiry time of each orphan. "Restored
  when a block is disconnected" needs the entries a block removed: the specification does
  not say where they are kept, the model keeps them with the block's hash in
  \<open>journal\<close>, one list per transaction.
\<close>

record engine =
  nodes :: "hash \<rightharpoonup> chain_node"
  bodies :: "hash \<rightharpoonup> block"
  best :: hash
  utxo :: utxo_set
  journal :: "hash \<rightharpoonup> utxo_entry list list"
  orphans :: "(block \<times> nat) list"

subsection \<open>Rules\<close>

text \<open>
  Modelled from the spec: a rule is the error code it reports and the test that an input
  violates it. Section 7: a validator returns "immediately on the first violated rule".
\<close>

type_synonym 'a rule = "ErrorCode \<times> ('a \<Rightarrow> bool)"

fun first_violation :: "'a rule list \<Rightarrow> 'a \<Rightarrow> ErrorCode option" where
  "first_violation [] x = None"
| "first_violation ((c, violated) # rs) x =
     (if violated x then Some c else first_violation rs x)"

text \<open>
  Modelled from the spec: what the specification leaves to collaborators or does not fix
  is a parameter: the structural rules of section 4.2 in the order they are checked; the
  rules of section 4.3 that read the ancestors of the block (given parent first), the
  current time and the block, those checked before the checkpoint (timestamp, difficulty)
  and those after (high hash, signer, policy); the rules of section 4.3 that read the UTXO
  set (maturity, overspend, fees, signature operations, scripts), given the set before the
  block, the height and the block; who may submit an admin operation; the work a block's
  difficulty bits stand for; the checkpoints; the bound and the lifetime of the orphan
  pool.
\<close>

record params =
  structural_rules :: "block rule list"
  context_rules_pre :: "(chain_node list \<times> nat \<times> block) rule list"
  context_rules_post :: "(chain_node list \<times> nat \<times> block) rule list"
  connect_rules :: "(utxo_set \<times> nat \<times> block) rule list"
  may_submit :: "admin_keys \<Rightarrow> identity \<Rightarrow> admin_op \<Rightarrow> bool"
  work_of_bits :: "nat \<Rightarrow> nat"
  checkpoints :: "(nat \<times> hash) list"
  max_orphans :: nat
  orphan_lifetime :: nat

text \<open>
  Modelled from the spec: section 7, a rule violation is reported as a RuleError with the
  code of the rule. The specification does not give the descriptions; the model uses the
  name of the code.
\<close>

definition rule_violation :: "ErrorCode \<Rightarrow> error" where
  "rule_violation c = IsRuleError (ruleError c (ErrorCode_String c))"

subsection \<open>The UTXO set (sections 3 and 4.3)\<close>

text \<open>
  Modelled from the spec: "entries are removed when spent"; every input must be in the
  set, and is taken out of it; the entries taken out are returned in the order of the
  inputs. An input named twice is missing the second time.
\<close>

fun spend_inputs :: "utxo_set \<Rightarrow> outpoint list \<Rightarrow> (utxo_set \<times> utxo_entry list) option" where
  "spend_inputs U [] = Some (U, [])"
| "spend_inputs U (i # ins) =
     (case U i of
        None \<Rightarrow> None
      | Some e \<Rightarrow>
          (case spend_inputs (U(i := None)) ins of
             None \<Rightarrow> None
           | Some (U', es) \<Rightarrow> Some (U', e # es)))"

definition out_keys :: "transaction \<Rightarrow> outpoint list" where
  "out_keys t = map (\<lambda>i. (tx_hash t, i)) [0..<length (tx_outputs t)]"

definition new_entries :: "nat \<Rightarrow> transaction \<Rightarrow> utxo_entry list" where
  "new_entries h t =
     map (\<lambda>out. \<lparr>entry_amount = out_amount out, entry_coinbase = (tx_inputs t = []),
                 entry_height = h\<rparr>) (tx_outputs t)"

text \<open>
  Modelled from the spec: entries are "created when a block is connected". Connecting one
  transaction at height \<open>h\<close> spends the inputs, then creates the outputs. A
  missing input is reported as \<^verbatim>\<open>ErrMissingTx\<close>; an output that
  would replace an entry still in the set as \<^verbatim>\<open>ErrOverwriteTx\<close>
  (\<^verbatim>\<open>error.go\<close>: "the same hash as a previous transaction which has
  not been fully spent").
\<close>

definition connect_tx :: "nat \<Rightarrow> utxo_set \<Rightarrow> transaction \<Rightarrow> ErrorCode + (utxo_set \<times> utxo_entry list)" where
  "connect_tx h U t =
     (case spend_inputs U (tx_inputs t) of
        None \<Rightarrow> Inl ErrMissingTx
      | Some (U1, spent) \<Rightarrow>
          if \<exists>k \<in> set (out_keys t). U1 k \<noteq> None then Inl ErrOverwriteTx
          else Inr (U1 ++ map_of (zip (out_keys t) (new_entries h t)), spent))"

fun connect_txs :: "nat \<Rightarrow> utxo_set \<Rightarrow> transaction list \<Rightarrow> ErrorCode + (utxo_set \<times> utxo_entry list list)" where
  "connect_txs h U [] = Inr (U, [])"
| "connect_txs h U (t # ts) =
     (case connect_tx h U t of
        Inl c \<Rightarrow> Inl c
      | Inr (U1, spent) \<Rightarrow>
          (case connect_txs h U1 ts of
             Inl c \<Rightarrow> Inl c
           | Inr (U2, rest) \<Rightarrow> Inr (U2, spent # rest)))"

text \<open>
  Modelled from the spec: "restored when a block is disconnected"; undoing one transaction
  removes the outputs it made and puts back the entries it spent; a block's transactions
  are undone last first. \<open>None\<close> when the journal does not fit the
  transactions.
\<close>

definition disconnect_tx :: "utxo_set \<Rightarrow> transaction \<Rightarrow> utxo_entry list \<Rightarrow> utxo_set option" where
  "disconnect_tx U t spent =
     (if length spent \<noteq> length (tx_inputs t) then None
      else Some ((U |` (- set (out_keys t))) ++ map_of (zip (tx_inputs t) spent)))"

fun disconnect_txs :: "utxo_set \<Rightarrow> transaction list \<Rightarrow> utxo_entry list list \<Rightarrow> utxo_set option" where
  "disconnect_txs U [] [] = Some U"
| "disconnect_txs U (t # ts) (spent # rest) =
     (case disconnect_txs U ts rest of
        None \<Rightarrow> None
      | Some U1 \<Rightarrow> disconnect_tx U1 t spent)"
| "disconnect_txs U _ _ = None"

subsection \<open>Admin keys (section 4.4)\<close>

fun apply_admin_op :: "admin_keys \<Rightarrow> admin_op \<Rightarrow> admin_keys" where
  "apply_admin_op K (AddKey r k) = K(r := insert k (K r))"
| "apply_admin_op K (RevokeKey r k) = K(r := K r - {k})"

text \<open>
  Modelled from the spec: section 4.4, "operations are processed in transaction order
  within a block"; "unauthorized attempts are rejected, not silently ignored", as
  invalid-admin-op.
\<close>

fun apply_admin_ops :: "params \<Rightarrow> admin_keys \<Rightarrow> (identity \<times> admin_op) list \<Rightarrow> ErrorCode + admin_keys" where
  "apply_admin_ops P K [] = Inr K"
| "apply_admin_ops P K ((who, oper) # rest) =
     (if may_submit P K who oper then apply_admin_ops P (apply_admin_op K oper) rest
      else Inl ErrInvalidAdminOp)"

definition block_admin_ops :: "block \<Rightarrow> (identity \<times> admin_op) list" where
  "block_admin_ops b = concat (map (\<lambda>t. map (Pair (tx_submitter t)) (tx_admin t)) (blk_txs b))"

text \<open>
  Modelled from the spec: section 6, \<^verbatim>\<open>AdminKeySets()\<close> is the
  snapshot of the node at the best tip.
\<close>

definition AdminKeySets :: "engine \<Rightarrow> admin_keys option" where
  "AdminKeySets s = map_option node_keys (nodes s (best s))"

subsection \<open>Paths in the block tree\<close>

text \<open>
  Modelled from the spec: the block tree of section 3, "rooted at genesis". The nodes from
  a hash down towards genesis, following the parent references; at most \<open>k\<close>
  steps are taken, one per unit of height.
\<close>

fun chain_from :: "(hash \<rightharpoonup> chain_node) \<Rightarrow> nat \<Rightarrow> hash \<Rightarrow> chain_node list" where
  "chain_from idx 0 h = (case idx h of None \<Rightarrow> [] | Some n \<Rightarrow> [n])"
| "chain_from idx (Suc k) h =
     (case idx h of None \<Rightarrow> [] | Some n \<Rightarrow> n # chain_from idx k (node_parent n))"

definition ancestry :: "engine \<Rightarrow> chain_node \<Rightarrow> chain_node list" where
  "ancestry s n = chain_from (nodes s) (node_height n) (node_hash n)"

definition tip_height :: "engine \<Rightarrow> nat" where
  "tip_height s = (case nodes s (best s) of None \<Rightarrow> 0 | Some n \<Rightarrow> node_height n)"

subsection \<open>Context-dependent validation of the header (section 4.3)\<close>

text \<open>
  Modelled from the spec: section 4.3, context-dependent validation. The rules that need
  the parent \<open>p\<close> and its ancestors, in the order of the section: height, then
  the rules before the checkpoint, then "if a checkpoint exists at this height, the block
  hash must match it exactly; otherwise reject as checkpoint mismatch", then "a fork that
  diverges at or before the most recent checkpoint is rejected as too-old", then the other
  rules. The most recent checkpoint is read as the highest one the best chain has reached,
  and a block at or below its height as such a fork.
\<close>

definition context_rules :: "params \<Rightarrow> engine \<Rightarrow> chain_node \<Rightarrow> (chain_node list \<times> nat \<times> block) rule list" where
  "context_rules P s p =
     [(ErrBadHeight, \<lambda>(anc, now, b). blk_height b \<noteq> node_height p + 1)]
     @ context_rules_pre P
     @ [(ErrBadCheckpoint, \<lambda>(anc, now, b).
           case map_of (checkpoints P) (blk_height b) of
             None \<Rightarrow> False
           | Some h \<Rightarrow> blk_hash b \<noteq> h),
        (ErrForkTooOld, \<lambda>(anc, now, b).
           \<exists>(h, x) \<in> set (checkpoints P). h \<le> tip_height s \<and> blk_height b \<le> h)]
     @ context_rules_post P"

definition checkBlockContext :: "params \<Rightarrow> nat \<Rightarrow> engine \<Rightarrow> chain_node \<Rightarrow> block \<Rightarrow> ErrorCode option" where
  "checkBlockContext P now s p b = first_violation (context_rules P s p) (ancestry s p, now, b)"

subsection \<open>Connect and disconnect (section 4.5)\<close>

text \<open>
  Modelled from the spec: section 4.5, connecting the block \<open>b\<close> on the best
  tip: "apply its transactions to the UTXO set, apply its admin operations, extend best
  chain". The node of the block, which carries the admin-key snapshot, is in the index
  already. The rules that read the UTXO set are checked here, "since UTXO state differs
  along the new path": first the inputs are spent and the outputs created, so that a
  missing input is reported before the rules of the parameter, which are given the set
  before the block. A state the engine cannot be in is an assertion failure (section 7).
\<close>

definition connect_block :: "params \<Rightarrow> engine \<Rightarrow> block \<Rightarrow> error + engine" where
  "connect_block P s b =
     (case nodes s (blk_hash b) of
        None \<Rightarrow> Inl (IsAssertError ''connect: block has no chain node'')
      | Some n \<Rightarrow>
          if node_parent n \<noteq> best s then Inl (IsAssertError ''connect: block does not extend the best chain'')
          else
            (case connect_txs (node_height n) (utxo s) (blk_txs b) of
               Inl c \<Rightarrow> Inl (rule_violation c)
             | Inr (U, spent) \<Rightarrow>
                 (case first_violation (connect_rules P) (utxo s, node_height n, b) of
                    Some c \<Rightarrow> Inl (rule_violation c)
                  | None \<Rightarrow>
                      Inr (s\<lparr>best := blk_hash b, utxo := U,
                              journal := (journal s)(blk_hash b \<mapsto> spent)\<rparr>))))"

text \<open>
  Modelled from the spec: section 4.5, disconnecting the best tip: "reverting UTXO and
  admin-key-set changes"; the snapshot is that of the parent again, "a reference swap".
\<close>

definition disconnect_tip :: "engine \<Rightarrow> error + engine" where
  "disconnect_tip s =
     (case (nodes s (best s), bodies s (best s), journal s (best s)) of
        (Some n, Some b, Some spent) \<Rightarrow>
          (case disconnect_txs (utxo s) (blk_txs b) spent of
             None \<Rightarrow> Inl (IsAssertError ''disconnect: journal does not fit the block'')
           | Some U \<Rightarrow>
               Inr (s\<lparr>best := node_parent n, utxo := U,
                       journal := (journal s)(best s := None)\<rparr>))
      | _ \<Rightarrow> Inl (IsAssertError ''disconnect: best tip is not a connected block''))"

text \<open>
  Modelled from the spec: section 4.5, reorganization to the node \<open>n\<close>:
  "disconnect blocks from old tip down to the ancestor", the first node of the best chain
  that is an ancestor of \<open>n\<close>; then "connect blocks from the ancestor up to
  the new tip". \<open>rewind\<close> disconnects until the tip is on the branch of
  \<open>n\<close>; it is given the height of the tip, which bounds the number of steps.
\<close>

fun rewind :: "nat \<Rightarrow> hash list \<Rightarrow> engine \<Rightarrow> error + engine" where
  "rewind 0 branch s =
     (if best s \<in> set branch then Inr s
      else Inl (IsAssertError ''reorganize: no common ancestor''))"
| "rewind (Suc k) branch s =
     (if best s \<in> set branch then Inr s
      else
        (case disconnect_tip s of
           Inl e \<Rightarrow> Inl e
         | Inr s' \<Rightarrow> rewind k branch s'))"

fun connect_path :: "params \<Rightarrow> engine \<Rightarrow> hash list \<Rightarrow> error + engine" where
  "connect_path P s [] = Inr s"
| "connect_path P s (h # hs) =
     (case bodies s h of
        None \<Rightarrow> Inl (IsAssertError ''reorganize: block of a node is missing'')
      | Some b \<Rightarrow>
          (case connect_block P s b of
             Inl e \<Rightarrow> Inl e
           | Inr s' \<Rightarrow> connect_path P s' hs))"

definition reorganize :: "params \<Rightarrow> engine \<Rightarrow> chain_node \<Rightarrow> error + engine" where
  "reorganize P s n =
     (let branch = map node_hash (ancestry s n) in
      case rewind (tip_height s) branch s of
        Inl e \<Rightarrow> Inl e
      | Inr s' \<Rightarrow> connect_path P s' (rev (takeWhile (\<lambda>h. h \<noteq> best s') branch)))"

subsection \<open>Acceptance and chain selection (sections 2 and 4.5)\<close>

text \<open>
  Modelled from the spec: sections 2 and 4.5, a block whose parent \<open>p\<close> is
  known: context-dependent validation, the admin operations against the parent's snapshot,
  then the three cases of section 4.5. The result is the new state and whether the block
  is on the best chain. Section 7 asks that a failed attempt leave the store as it was,
  "by buffering all mutations until the entire path is proven valid": the state worked on
  is dropped on failure, the caller keeps its own.
\<close>

definition maybeAcceptBlock :: "params \<Rightarrow> nat \<Rightarrow> engine \<Rightarrow> block \<Rightarrow> chain_node \<Rightarrow> error + (engine \<times> bool)" where
  "maybeAcceptBlock P now s b p =
     (case checkBlockContext P now s p b of
        Some c \<Rightarrow> Inl (rule_violation c)
      | None \<Rightarrow>
          (case apply_admin_ops P (node_keys p) (block_admin_ops b) of
             Inl c \<Rightarrow> Inl (rule_violation c)
           | Inr K \<Rightarrow>
               (let n = \<lparr>node_hash = blk_hash b, node_parent = blk_prev b,
                         node_height = node_height p + 1,
                         node_work = node_work p + work_of_bits P (blk_bits b),
                         node_keys = K\<rparr>;
                    s1 = s\<lparr>nodes := (nodes s)(blk_hash b \<mapsto> n),
                           bodies := (bodies s)(blk_hash b \<mapsto> b)\<rparr>
                in case nodes s (best s) of
                     None \<Rightarrow> Inl (IsAssertError ''best tip has no chain node'')
                   | Some tip \<Rightarrow>
                       if blk_prev b = best s then
                         (case connect_block P s1 b of
                            Inl e \<Rightarrow> Inl e
                          | Inr s2 \<Rightarrow> Inr (s2, True))
                       else if node_work n \<le> node_work tip then Inr (s1, False)
                       else
                         (case reorganize P s1 n of
                            Inl e \<Rightarrow> Inl e
                          | Inr s2 \<Rightarrow> Inr (s2, True)))))"

subsection \<open>The orphan pool (section 4.5)\<close>

text \<open>
  Modelled from the spec: "a bounded orphan pool keyed by hash, with an expiry"; adding an
  orphan drops the expired ones, and keeps no more than the newest
  \<open>max_orphans\<close>. Which orphan gives way when the pool is full is not
  specified; the model drops the oldest.
\<close>

definition add_orphan :: "params \<Rightarrow> nat \<Rightarrow> engine \<Rightarrow> block \<Rightarrow> engine" where
  "add_orphan P now s b =
     (let live = filter (\<lambda>(ob, expiry). now < expiry) (orphans s);
          pool = live @ [(b, now + orphan_lifetime P)]
      in s\<lparr>orphans := drop (length pool - max_orphans P) pool\<rparr>)"

text \<open>
  Modelled from the spec: section 4.5, "when a block is accepted, the engine scans the
  orphan pool for children and processes them recursively in the same pipeline";
  \<open>work\<close> holds the hashes of the blocks accepted and not yet scanned for; an orphan
  whose parent is among them is taken from \<open>pool\<close> and given to \<open>maybeAcceptBlock\<close>, as
  a block presented with a known parent is; it never returns to the pool. When it is
  accepted its hash joins \<open>work\<close>. Expiry is applied when an orphan is added, not here.

  Section 7: an assertion failure "must propagate and cause the enclosing operation to
  abort without partial state mutation; never silently swallowed": it ends the scan and
  is the result; so does an accepted block without a chain node, a state the engine
  cannot be in. The specification does not say what is done with the RuleError of an
  orphan that is rejected in the scan. The model reads section 6, where the error of
  \<^verbatim>\<open>ProcessBlock\<close> is the rejection of the block presented, section 4.5, where the
  children of an accepted block are all processed, and section 8, where the blocks of
  a valid chain are accepted with no condition on the pool: the rejected orphan leaves
  the pool, the scan goes on, and its RuleError is not the result of the call.
\<close>

function process_orphans :: "params \<Rightarrow> nat \<Rightarrow> (block \<times> nat) list \<Rightarrow> hash list \<Rightarrow> engine \<Rightarrow> error + engine" where
  "process_orphans P now pool [] s = Inr (s\<lparr>orphans := pool\<rparr>)"
| "process_orphans P now pool (h # work) s =
     (case find (\<lambda>(ob, expiry). blk_prev ob = h) pool of
        None \<Rightarrow> process_orphans P now pool work s
      | Some (ob, expiry) \<Rightarrow>
          (case nodes s h of
             None \<Rightarrow> Inl (IsAssertError ''orphans: accepted block has no chain node'')
           | Some p \<Rightarrow>
               (case maybeAcceptBlock P now s ob p of
                  Inl e \<Rightarrow>
                    (case assert_RuleError e of
                       None \<Rightarrow> Inl e
                     | Some rerr \<Rightarrow>
                         process_orphans P now (remove1 (ob, expiry) pool) (h # work) s)
                | Inr (s', onMain) \<Rightarrow>
                    process_orphans P now (remove1 (ob, expiry) pool)
                      (h # work @ [blk_hash ob]) s')))"
  by pat_completeness auto
termination
proof (relation "measure (\<lambda>(P, now, pool, work, s). 2 * length pool + length work)")
  fix pool :: "(block \<times> nat) list" and h :: hash and x ob expiry
  assume "find (\<lambda>(ob, expiry). blk_prev ob = h) pool = Some x" and "(ob, expiry) = x"
  then have "(ob, expiry) \<in> set pool"
    by (metis find_Some_iff nth_mem)
  then have shorter: "length (remove1 (ob, expiry) pool) < length pool"
    using length_pos_if_in_set [of "(ob, expiry)" pool] by (simp add: length_remove1)
  fix P :: params and now :: nat and work :: "hash list" and s s' :: engine
  from shorter
  show "((P, now, remove1 (ob, expiry) pool, h # work, s), (P, now, pool, h # work, s))
          \<in> measure (\<lambda>(P, now, pool, work, s). 2 * length pool + length work)"
    by simp
  from shorter
  show "((P, now, remove1 (ob, expiry) pool, h # work @ [blk_hash ob], s'),
            (P, now, pool, h # work, s))
          \<in> measure (\<lambda>(P, now, pool, work, s). 2 * length pool + length work)"
    by simp
qed simp_all

declare process_orphans.simps [simp del]

subsection \<open>The entry point (sections 2 and 6)\<close>

text \<open>
  Modelled from the spec: the entry point of sections 2 and 6,
  \<^verbatim>\<open>ProcessBlock\<close> with full validation (the flag
  \<^verbatim>\<open>BFNone\<close>, the only one the test passes), at the time
  \<open>now\<close>. A block whose hash is in the index or in the orphan pool is a
  duplicate (\<^verbatim>\<open>error.go\<close>: "a block with the same hash already
  exists"). Then the structural validation; then a block whose parent is unknown goes to
  the orphan pool; otherwise it is accepted or rejected, and when accepted the orphans
  waiting for it are processed. The results are those of the Go function: the two flags
  and the error, which is \<open>None\<close> for nil; with an error the flags are false
  and the state is the caller's (section 7: "nil error only on unconditional
  acceptance"; an aborted operation leaves no "partial state mutation").
\<close>

definition known_block :: "engine \<Rightarrow> hash \<Rightarrow> bool" where
  "known_block s h \<longleftrightarrow> nodes s h \<noteq> None \<or> h \<in> set (map (blk_hash \<circ> fst) (orphans s))"

definition ProcessBlock :: "params \<Rightarrow> nat \<Rightarrow> engine \<Rightarrow> block \<Rightarrow> engine \<times> process_result" where
  "ProcessBlock P now s b =
     (if known_block s (blk_hash b)
      then (s, False, False, Some (rule_violation ErrDuplicateBlock))
      else
        (case first_violation (structural_rules P) b of
           Some c \<Rightarrow> (s, False, False, Some (rule_violation c))
         | None \<Rightarrow>
             (case nodes s (blk_prev b) of
                None \<Rightarrow> (add_orphan P now s b, False, True, None)
              | Some p \<Rightarrow>
                  (case maybeAcceptBlock P now s b p of
                     Inl e \<Rightarrow> (s, False, False, Some e)
                   | Inr (s', onMain) \<Rightarrow>
                       (case process_orphans P now (orphans s') [blk_hash b] s' of
                          Inl e \<Rightarrow> (s, False, False, Some e)
                        | Inr s'' \<Rightarrow> (s'', onMain, False, None))))))"

subsection \<open>The states of a scan\<close>


definition pool_fresh :: "engine \<Rightarrow> bool" where
  "pool_fresh s \<longleftrightarrow>
     distinct (map (blk_hash \<circ> fst) (orphans s))
     \<and> (\<forall>(ob, expiry) \<in> set (orphans s). nodes s (blk_hash ob) = None)"

subsection \<open>A small configuration for the examples\<close>

text \<open>
  Two structural rules of section 4.2 (no transaction; first transaction not a coinbase),
  one rule of section 4.3 that is checked when the block is connected (the coinbase
  pays no more than the subsidy of 50; the examples have no fees), one checkpoint, at
  height 2 with hash 12, work equal to the difficulty bits, and admin operations open
  to the provisioning keys. The genesis block has hash 10 and the provisioning key 7.
\<close>

definition example_params :: params where
  "example_params =
     \<lparr>structural_rules =
        [(ErrNoTransactions, \<lambda>b. blk_txs b = []),
         (ErrFirstTxNotCoinbase, \<lambda>b. tx_inputs (hd (blk_txs b)) \<noteq> [])],
      context_rules_pre = [],
      context_rules_post = [],
      connect_rules =
        [(ErrBadCoinbaseValue,
          \<lambda>(U, h, b). 50 < sum_list (map out_amount (tx_outputs (hd (blk_txs b)))))],
      may_submit = (\<lambda>K who oper. who \<in> K Provisioning),
      work_of_bits = (\<lambda>bits. bits),
      checkpoints = [(2, 12)],
      max_orphans = 4,
      orphan_lifetime = 3600\<rparr>"

definition genesis_keys :: admin_keys where
  "genesis_keys = (\<lambda>r. {})(Provisioning := {7})"

definition genesis_node :: chain_node where
  "genesis_node =
     \<lparr>node_hash = 10, node_parent = 0, node_height = 0, node_work = 0,
      node_keys = genesis_keys\<rparr>"

definition genesis_state :: engine where
  "genesis_state =
     \<lparr>nodes = [10 \<mapsto> genesis_node], bodies = Map.empty, best = 10, utxo = Map.empty,
      journal = Map.empty, orphans = []\<rparr>"

text \<open>
  A coinbase paying 50 to script 1, and a block of given hash, parent, height, bits and
  transactions.
\<close>

definition coinbase :: "hash \<Rightarrow> transaction" where
  "coinbase h =
     \<lparr>tx_hash = h, tx_inputs = [], tx_outputs = [\<lparr>out_amount = 50, out_script = 1\<rparr>],
      tx_admin = [], tx_submitter = 0\<rparr>"

definition spend :: "hash \<Rightarrow> outpoint \<Rightarrow> transaction" where
  "spend h i =
     \<lparr>tx_hash = h, tx_inputs = [i], tx_outputs = [\<lparr>out_amount = 50, out_script = 2\<rparr>],
      tx_admin = [], tx_submitter = 0\<rparr>"

text \<open>
  An admin transaction of the examples carries one operation; it spends nothing and
  pays nothing.
\<close>

definition admin_tx :: "hash \<Rightarrow> identity \<Rightarrow> admin_op \<Rightarrow> transaction" where
  "admin_tx h who oper =
     \<lparr>tx_hash = h, tx_inputs = [], tx_outputs = [], tx_admin = [oper], tx_submitter = who\<rparr>"

definition mk_block :: "hash \<Rightarrow> hash \<Rightarrow> nat \<Rightarrow> nat \<Rightarrow> transaction list \<Rightarrow> block" where
  "mk_block h prev height bits txs =
     \<lparr>blk_hash = h, blk_prev = prev, blk_version = 1, blk_merkle_root = 0,
      blk_timestamp = 0, blk_bits = bits, blk_nonce = 0, blk_signature = 0,
      blk_height = height, blk_txs = txs\<rparr>"

text \<open>
  The blocks of the examples: 11, 12, 13 on top of genesis; 21 and 22 a competing branch,
  22 with more work than 11 and 12 together; \<open>b22_missing\<close> is 22 with a
  transaction that spends an output nobody made; \<open>b_empty\<close> has no transaction
  and an unknown parent; \<open>b42\<close> stands at the checkpoint's height with another
  hash, and \<open>b42_empty\<close> is the same without transactions;
  \<open>b12_bad_height\<close> is 12 with a wrong height; \<open>b12_missing\<close> is 12 with a
  transaction that spends an output nobody made; \<open>b12_rich\<close> is 12 with a coinbase
  that pays 51; \<open>b12_admin who\<close> is 12 with an admin transaction in which \<open>who\<close> adds
  the issuing key 9.
\<close>

definition b11 :: block where "b11 = mk_block 11 10 1 1 [coinbase 111]"
definition b12 :: block where "b12 = mk_block 12 11 2 1 [coinbase 112]"
definition b21 :: block where "b21 = mk_block 21 10 1 1 [coinbase 121]"
definition b22 :: block where "b22 = mk_block 22 21 2 5 [coinbase 122]"
definition b22_missing :: block where
  "b22_missing = mk_block 22 21 2 5 [coinbase 122, spend 501 (999, 0)]"
definition b12_missing :: block where
  "b12_missing = mk_block 12 11 2 1 [coinbase 112, spend 501 (999, 0)]"
definition b12_rich :: block where
  "b12_rich =
     mk_block 12 11 2 1 [(coinbase 112)\<lparr>tx_outputs := [\<lparr>out_amount = 51, out_script = 1\<rparr>]\<rparr>]"
definition b12_admin :: "identity \<Rightarrow> block" where
  "b12_admin who = mk_block 12 11 2 1 [coinbase 112, admin_tx 600 who (AddKey Issuing 9)]"
definition b_empty :: block where "b_empty = mk_block 33 77 2 5 []"
definition b42 :: block where "b42 = mk_block 42 11 2 9 [coinbase 142]"
definition b42_empty :: block where "b42_empty = mk_block 42 11 2 9 []"
definition b12_bad_height :: block where "b12_bad_height = mk_block 12 11 5 1 [coinbase 112]"

definition coinbase_entry :: "nat \<Rightarrow> utxo_entry" where
  "coinbase_entry h = \<lparr>entry_amount = 50, entry_coinbase = True, entry_height = h\<rparr>"

definition node_of :: "block \<Rightarrow> nat \<Rightarrow> chain_node" where
  "node_of b w =
     \<lparr>node_hash = blk_hash b, node_parent = blk_prev b, node_height = blk_height b,
      node_work = w, node_keys = genesis_keys\<rparr>"

text \<open>The states after genesis, 11; after genesis, 11, 12; after genesis, 11, 21.\<close>

definition state_11 :: engine where
  "state_11 =
     \<lparr>nodes = [10 \<mapsto> genesis_node, 11 \<mapsto> node_of b11 1],
      bodies = [11 \<mapsto> b11], best = 11,
      utxo = [(111, 0) \<mapsto> coinbase_entry 1],
      journal = [11 \<mapsto> [[]]], orphans = []\<rparr>"

definition state_12 :: engine where
  "state_12 =
     \<lparr>nodes = [10 \<mapsto> genesis_node, 11 \<mapsto> node_of b11 1, 12 \<mapsto> node_of b12 2],
      bodies = [11 \<mapsto> b11, 12 \<mapsto> b12], best = 12,
      utxo = [(111, 0) \<mapsto> coinbase_entry 1, (112, 0) \<mapsto> coinbase_entry 2],
      journal = [11 \<mapsto> [[]], 12 \<mapsto> [[]]], orphans = []\<rparr>"

definition state_fork :: engine where
  "state_fork =
     \<lparr>nodes = [10 \<mapsto> genesis_node, 11 \<mapsto> node_of b11 1, 21 \<mapsto> node_of b21 1],
      bodies = [11 \<mapsto> b11, 21 \<mapsto> b21], best = 11,
      utxo = [(111, 0) \<mapsto> coinbase_entry 1],
      journal = [11 \<mapsto> [[]]], orphans = []\<rparr>"

text \<open>
  Block 13 spends the coinbase output of block 11. \<open>before_13\<close> is the state
  in which the node and the body of 13 are recorded and 12 is still the best tip;
  \<open>state_13\<close> the state with 13 connected.
\<close>

definition b13 :: block where
  "b13 = mk_block 13 12 3 1 [coinbase 113, spend 500 (111, 0)]"

definition before_13 :: engine where
  "before_13 =
     state_12\<lparr>nodes := (nodes state_12)(13 \<mapsto> node_of b13 3),
              bodies := (bodies state_12)(13 \<mapsto> b13)\<rparr>"

definition state_13 :: engine where
  "state_13 =
     before_13\<lparr>best := 13,
       utxo := [(112, 0) \<mapsto> coinbase_entry 2, (113, 0) \<mapsto> coinbase_entry 3,
                (500, 0) \<mapsto> \<lparr>entry_amount = 50, entry_coinbase = False, entry_height = 3\<rparr>],
       journal := (journal before_13)(13 \<mapsto> [[], [coinbase_entry 1]])\<rparr>"

text \<open>The genesis state with one orphan in the pool.\<close>

definition waiting :: "block \<Rightarrow> engine" where
  "waiting b = genesis_state\<lparr>orphans := [(b, 3600)]\<rparr>"

text \<open>The configuration without its checkpoint.\<close>

definition open_params :: params where
  "open_params = example_params\<lparr>checkpoints := []\<rparr>"

text \<open>
  The stations of the failing reorganization to \<open>b22_missing\<close>: the fork with
  the node and the body of 22 recorded; then with 11 disconnected; then with 21 connected.
\<close>

definition fork_22 :: engine where
  "fork_22 =
     state_fork\<lparr>nodes := (nodes state_fork)(22 \<mapsto> node_of b22_missing 6),
                bodies := (bodies state_fork)(22 \<mapsto> b22_missing)\<rparr>"

definition fork_rewound :: engine where
  "fork_rewound = fork_22\<lparr>best := 10, utxo := Map.empty, journal := Map.empty\<rparr>"

definition fork_21 :: engine where
  "fork_21 =
     fork_rewound\<lparr>best := 21, utxo := [(121, 0) \<mapsto> coinbase_entry 1],
                  journal := [21 \<mapsto> [[]]]\<rparr>"

section \<open>Properties of the error taxonomy\<close>

subsection \<open>Decimal rendering\<close>

lemma decimal_small: "n < 10 \<Longrightarrow> decimal n = [digit_char n]"
  by (simp add: decimal.simps)

lemma decimal_big: "\<not> n < 10 \<Longrightarrow> decimal n = decimal (n div 10) @ [digit_char (n mod 10)]"
  by (subst decimal.simps) simp

lemma digit_char_value: "d < 10 \<Longrightarrow> of_char (digit_char d) = (48::nat) + d"
proof -
  assume "d < 10"
  then have "d \<in> {0, 1, 2, 3, 4, 5, 6, 7, 8, 9}" by auto
  then show ?thesis by (auto simp: digit_char_def)
qed

lemma digits_value_decimal: "digits_value (decimal n) = n"
proof (induction n rule: decimal.induct)
  case (1 n)
  show ?case
  proof (cases "n < 10")
    case True
    then show ?thesis
      by (simp add: decimal_small digits_value_def digit_char_value)
  next
    case False
    have "n mod 10 < 10" by simp
    then have d: "of_char (digit_char (n mod 10)) = (48::nat) + n mod 10"
      by (rule digit_char_value)
    from False "1.IH" have "digits_value (decimal (n div 10)) = n div 10" by simp
    then show ?thesis
      using False d by (simp add: decimal_big digits_value_def)
  qed
qed

lemma decimal_nonempty: "decimal n \<noteq> []"
  by (cases "n < 10") (simp_all add: decimal_small decimal_big)

subsection \<open>The name table\<close>

lemma map_index_table:
  "distinct (map fst m) \<Longrightarrow> map (map_index m) (map fst m) = map snd m"
proof (induction m)
  case Nil
  then show ?case by simp
next
  case (Cons p m)
  obtain k v where p: "p = (k, v)" by (cases p)
  from Cons.prems p have fresh: "k \<notin> set (map fst m)" and d: "distinct (map fst m)"
    by simp_all
  have "map (map_index (p # m)) (map fst m) = map (map_index m) (map fst m)"
  proof (rule map_cong [OF refl])
    fix x assume "x \<in> set (map fst m)"
    with fresh have "x \<noteq> k" by blast
    then show "map_index (p # m) x = map_index m x"
      by (simp add: map_index_def p)
  qed
  with Cons.IH [OF d] show ?case
    by (simp add: map_index_def p)
qed

lemma table_keys: "map fst errorCodeStrings = defined_codes"
  by (simp add: errorCodeStrings_def defined_codes_def)

lemma defined_codes_upto: "defined_codes = [0..46]"
  by (simp add: defined_codes_def ErrorCode_defs upto_rec1)

lemma distinct_defined_codes: "distinct defined_codes"
  by (simp add: defined_codes_upto)

lemma table_names_nonempty: "'''' \<notin> set (map snd errorCodeStrings)"
  by (simp add: errorCodeStrings_def)

lemma table_names_distinct: "distinct (map snd errorCodeStrings)"
  by (simp add: errorCodeStrings_def)

lemma table_names:
  "map snd errorCodeStrings =
    [''ErrDuplicateBlock'', ''ErrBlockTooBig'', ''ErrBlockVersionTooOld'',
     ''ErrInvalidTime'', ''ErrTimeTooOld'', ''ErrTimeTooNew'', ''ErrDifficultyTooLow'',
     ''ErrUnexpectedDifficulty'', ''ErrBadHeight'', ''ErrBadBlockSignature'',
     ''ErrHighHash'', ''ErrBadMerkleRoot'', ''ErrBadCheckpoint'', ''ErrForkTooOld'',
     ''ErrCheckpointTimeTooOld'', ''ErrNoTransactions'', ''ErrTooManyTransactions'',
     ''ErrNoTxInputs'', ''ErrNoTxOutputs'', ''ErrTxTooBig'', ''ErrBadTxOutValue'',
     ''ErrDuplicateTxInputs'', ''ErrBadTxInput'', ''ErrMissingTx'', ''ErrUnfinalizedTx'',
     ''ErrDuplicateTx'', ''ErrOverwriteTx'', ''ErrImmatureSpend'', ''ErrDoubleSpend'',
     ''ErrSpendTooHigh'', ''ErrBadFees'', ''ErrTooManySigOps'', ''ErrFirstTxNotCoinbase'',
     ''ErrMultipleCoinbases'', ''ErrBadCoinbaseScriptLen'', ''ErrBadCoinbaseValue'',
     ''ErrScriptMalformed'', ''ErrScriptValidation'', ''ErrExcessiveChainShare'',
     ''ErrExcessiveTrailing'', ''ErrInconsistentBlkSize'', ''ErrInvalidCoinbase'',
     ''ErrInvalidTx'', ''ErrInvalidValidateKey'', ''ErrInvalidAdminTx'',
     ''ErrInvalidAdminOp'', ''ErrFeeTooHigh'']"
  by (simp add: errorCodeStrings_def)

lemma map_index_defined:
  "map (map_index errorCodeStrings) defined_codes = map snd errorCodeStrings"
  using map_index_table [of errorCodeStrings] distinct_defined_codes
  by (simp add: table_keys)

lemma String_is_table_entry:
  assumes "c \<in> set defined_codes"
  shows "map_index errorCodeStrings c \<noteq> ''''"
    and "ErrorCode_String c = map_index errorCodeStrings c"
proof -
  from assms
  have "map_index errorCodeStrings c \<in> set (map (map_index errorCodeStrings) defined_codes)"
    by simp
  then have "map_index errorCodeStrings c \<in> set (map snd errorCodeStrings)"
    by (simp only: map_index_defined)
  with table_names_nonempty show "map_index errorCodeStrings c \<noteq> ''''"
    by metis
  then show "ErrorCode_String c = map_index errorCodeStrings c"
    by (simp add: ErrorCode_String_def)
qed

lemma String_defined: "map ErrorCode_String defined_codes = map snd errorCodeStrings"
proof -
  have "map ErrorCode_String defined_codes = map (map_index errorCodeStrings) defined_codes"
    by (rule map_cong [OF refl]) (rule String_is_table_entry)
  then show ?thesis by (simp only: map_index_defined)
qed

lemma String_unknown:
  assumes "map_of errorCodeStrings e = None"
  shows "ErrorCode_String e = ''Unknown ErrorCode ('' @ fmt_d e @ '')''"
  using assms by (simp add: ErrorCode_String_def map_index_def)

lemma no_entry_iff: "map_of errorCodeStrings e = None \<longleftrightarrow> e < 0 \<or> 46 < e"
proof -
  have "map_of errorCodeStrings e = None \<longleftrightarrow> e \<notin> set (map fst errorCodeStrings)"
    by (simp add: map_of_eq_None_iff)
  also have "\<dots> \<longleftrightarrow> e \<notin> set [0..46]"
    by (simp only: table_keys defined_codes_upto)
  also have "\<dots> \<longleftrightarrow> e < 0 \<or> 46 < e"
    by auto
  finally show ?thesis .
qed

lemma distinct_concat_disjoint:
  "distinct (concat (map f xs)) \<Longrightarrow> x \<in> set xs \<Longrightarrow> y \<in> set xs \<Longrightarrow> x \<noteq> y
    \<Longrightarrow> set (f x) \<inter> set (f y) = {}"
  by (induction xs) auto

lemma spec_kinds_complete: "k \<in> set spec_kinds"
  by (cases k) (simp_all add: spec_kinds_def)

lemma kind_codes_distinct: "distinct (concat (map kind_codes spec_kinds))"
  by (simp add: spec_kinds_def ErrorCode_defs)

lemma kind_codes_defined: "kind_codes k \<noteq> [] \<and> set (kind_codes k) \<subseteq> set defined_codes"
  by (cases k) (simp_all add: defined_codes_def)

section \<open>The claims on \<^verbatim>\<open>error.go\<close>\<close>

text \<open>
  Claim C2. A RuleError pairs one ErrorCode with one description: \<^verbatim>\<open>ruleError(c, desc)\<close>
  yields the value whose \<^verbatim>\<open>ErrorCode\<close> field is \<open>c\<close> and whose \<^verbatim>\<open>Description\<close> field is
  \<open>desc\<close>; every RuleError is the pair of its two fields and nothing more; and
  \<^verbatim>\<open>Error()\<close> returns exactly the description. Both methods take the value as a value
  receiver and nothing in \<^verbatim>\<open>error.go\<close> assigns to a field, which the model renders by
  RuleError being a plain value: \<open>RuleError_Error\<close> returns a string and no new
  RuleError.
\<close>

theorem ruleError_pairs_code_and_description:
  "ErrorCode (ruleError c desc) = c
   \<and> Description (ruleError c desc) = desc
   \<and> RuleError_Error (ruleError c desc) = desc
   \<and> RuleError_Error e = Description e
   \<and> e = ruleError (ErrorCode e) (Description e)
   \<and> error_Error (IsRuleError e) = Description e"
  by (simp add: ruleError_def RuleError_Error_def)

theorem ruleError_pairs_code_and_description_witness:
  "ErrorCode (ruleError ErrBadMerkleRoot ''block merkle root is invalid'') = 11
   \<and> Description (ruleError ErrBadMerkleRoot ''block merkle root is invalid'')
       = ''block merkle root is invalid''
   \<and> RuleError_Error (ruleError ErrBadMerkleRoot ''block merkle root is invalid'')
       = ''block merkle root is invalid''"
  using ruleError_pairs_code_and_description
    [of ErrBadMerkleRoot "''block merkle root is invalid''"]
  by (simp add: ErrBadMerkleRoot_def)

text \<open>
  Claim C3. The constant block of ErrorCode defines 47 constants, numbered 0 to 46 with
  no number used twice. Every error kind of the specification's taxonomy list has at
  least one constant of the block, and no constant serves two of the listed kinds.
\<close>

theorem taxonomy_kinds_have_distinct_constants:
  "defined_codes = [0..46]
   \<and> distinct defined_codes
   \<and> kind_codes k \<noteq> []
   \<and> set (kind_codes k) \<subseteq> set defined_codes
   \<and> distinct (kind_codes k)
   \<and> (k \<noteq> k' \<longrightarrow> set (kind_codes k) \<inter> set (kind_codes k') = {})"
proof -
  have "distinct (kind_codes k)"
    by (cases k) (simp_all add: ErrorCode_defs)
  moreover have "k \<noteq> k' \<longrightarrow> set (kind_codes k) \<inter> set (kind_codes k') = {}"
    using distinct_concat_disjoint [OF kind_codes_distinct, of k k']
    by (simp add: spec_kinds_complete)
  ultimately show ?thesis
    using kind_codes_defined [of k] defined_codes_upto distinct_defined_codes by simp
qed

theorem taxonomy_kinds_have_distinct_constants_witness:
  "CheckpointMismatch \<noteq> ForkTooOld
   \<and> kind_codes CheckpointMismatch = [12] \<and> kind_codes ForkTooOld = [13]
   \<and> set (kind_codes CheckpointMismatch) \<inter> set (kind_codes ForkTooOld) = {}"
  using taxonomy_kinds_have_distinct_constants [of CheckpointMismatch ForkTooOld]
  by (simp add: ErrBadCheckpoint_def ErrForkTooOld_def)

text \<open>
  Claim C4. \<^verbatim>\<open>ErrorCode.String\<close> returns, for each of the constants from
  \<^verbatim>\<open>ErrDuplicateBlock\<close> to \<^verbatim>\<open>ErrFeeTooHigh\<close>, the name of that constant; for a value
  with no entry in the name table (any integer below 0 or above 46) it returns
  \<^verbatim>\<open>"Unknown ErrorCode (d)"\<close> with \<open>d\<close> the value in decimal, where the decimal text read
  back as a number is the absolute value. String is a total function of the integers.
\<close>

theorem ErrorCode_String_names:
  "map ErrorCode_String defined_codes =
    [''ErrDuplicateBlock'', ''ErrBlockTooBig'', ''ErrBlockVersionTooOld'',
     ''ErrInvalidTime'', ''ErrTimeTooOld'', ''ErrTimeTooNew'', ''ErrDifficultyTooLow'',
     ''ErrUnexpectedDifficulty'', ''ErrBadHeight'', ''ErrBadBlockSignature'',
     ''ErrHighHash'', ''ErrBadMerkleRoot'', ''ErrBadCheckpoint'', ''ErrForkTooOld'',
     ''ErrCheckpointTimeTooOld'', ''ErrNoTransactions'', ''ErrTooManyTransactions'',
     ''ErrNoTxInputs'', ''ErrNoTxOutputs'', ''ErrTxTooBig'', ''ErrBadTxOutValue'',
     ''ErrDuplicateTxInputs'', ''ErrBadTxInput'', ''ErrMissingTx'', ''ErrUnfinalizedTx'',
     ''ErrDuplicateTx'', ''ErrOverwriteTx'', ''ErrImmatureSpend'', ''ErrDoubleSpend'',
     ''ErrSpendTooHigh'', ''ErrBadFees'', ''ErrTooManySigOps'', ''ErrFirstTxNotCoinbase'',
     ''ErrMultipleCoinbases'', ''ErrBadCoinbaseScriptLen'', ''ErrBadCoinbaseValue'',
     ''ErrScriptMalformed'', ''ErrScriptValidation'', ''ErrExcessiveChainShare'',
     ''ErrExcessiveTrailing'', ''ErrInconsistentBlkSize'', ''ErrInvalidCoinbase'',
     ''ErrInvalidTx'', ''ErrInvalidValidateKey'', ''ErrInvalidAdminTx'',
     ''ErrInvalidAdminOp'', ''ErrFeeTooHigh'']
   \<and> ErrorCode_String ErrDuplicateBlock = ''ErrDuplicateBlock''
   \<and> (map_of errorCodeStrings e = None \<longleftrightarrow> e < 0 \<or> 46 < e)
   \<and> (map_of errorCodeStrings e = None \<longrightarrow>
        ErrorCode_String e = ''Unknown ErrorCode ('' @ fmt_d e @ '')''
        \<and> fmt_d e = (if e < 0 then ''-'' else '''') @ decimal (nat \<bar>e\<bar>)
        \<and> digits_value (decimal (nat \<bar>e\<bar>)) = nat \<bar>e\<bar>)"
proof -
  note names = String_defined [unfolded table_names]
  have "ErrDuplicateBlock \<in> set defined_codes"
    by (simp add: defined_codes_def)
  then have "ErrorCode_String ErrDuplicateBlock = map_index errorCodeStrings ErrDuplicateBlock"
    by (rule String_is_table_entry)
  then have first: "ErrorCode_String ErrDuplicateBlock = ''ErrDuplicateBlock''"
    by (simp add: map_index_def errorCodeStrings_def)
  have fmt: "fmt_d e = (if e < 0 then ''-'' else '''') @ decimal (nat \<bar>e\<bar>)"
    by (simp add: fmt_d_def)
  have unknown: "map_of errorCodeStrings e = None \<longrightarrow>
        ErrorCode_String e = ''Unknown ErrorCode ('' @ fmt_d e @ '')''
        \<and> fmt_d e = (if e < 0 then ''-'' else '''') @ decimal (nat \<bar>e\<bar>)
        \<and> digits_value (decimal (nat \<bar>e\<bar>)) = nat \<bar>e\<bar>"
    using String_unknown [of e] fmt digits_value_decimal [of "nat \<bar>e\<bar>"] by blast
  show ?thesis
    apply (intro conjI)
       apply (rule names)
      apply (rule first)
     apply (rule no_entry_iff)
    apply (rule unknown)
    done
qed

theorem ErrorCode_String_names_witness:
  "map_of errorCodeStrings 47 = None
   \<and> ErrorCode_String 47 = ''Unknown ErrorCode (47)''
   \<and> map_of errorCodeStrings (- 1) = None
   \<and> ErrorCode_String (- 1) = ''Unknown ErrorCode (-1)''
   \<and> ErrorCode_String ErrDuplicateBlock = ''ErrDuplicateBlock''"
proof -
  have a: "fmt_d 47 = ''47''"
    by (simp add: fmt_d_def decimal_big decimal_small digit_char_def)
  have b: "fmt_d (- 1) = ''-1''"
    by (simp add: fmt_d_def decimal_big decimal_small digit_char_def)
  show ?thesis
    using ErrorCode_String_names [of 47] ErrorCode_String_names [of "- 1"] a b
    by simp
qed

text \<open>
  Claim C5. An assertion failure is an error of another class than a rule violation:
  the type test for RuleError does not match a value of type AssertError, no
  AssertError value is a RuleError value, and for every string \<open>s\<close> the method
  \<^verbatim>\<open>AssertError(s).Error()\<close> returns \<^verbatim>\<open>"assertion failed: "\<close> followed by \<open>s\<close>.
\<close>

theorem AssertError_distinct_from_RuleError:
  "assert_RuleError (IsAssertError s) = None
   \<and> IsAssertError s \<noteq> IsRuleError r
   \<and> assert_RuleError (IsRuleError r) = Some r
   \<and> AssertError_Error s = ''assertion failed: '' @ s
   \<and> error_Error (IsAssertError s) = ''assertion failed: '' @ s"
  by (simp add: AssertError_Error_def)

theorem AssertError_distinct_from_RuleError_witness:
  "assert_RuleError (IsAssertError ''bad node'') = None
   \<and> AssertError_Error ''bad node'' = ''assertion failed: bad node''"
  using AssertError_distinct_from_RuleError [of "''bad node''"]
  by simp

text \<open>
  Claim C10. The name table has an entry for each of the 47 constants of the block, the
  names are not empty and no two are equal; so for a constant of the block
  \<^verbatim>\<open>ErrorCode.String\<close> returns the table's entry and never the "Unknown ErrorCode"
  text, and it returns different names for different constants.
\<close>

theorem errorCodeStrings_covers_defined_codes:
  "length defined_codes = 47
   \<and> map fst errorCodeStrings = defined_codes
   \<and> distinct defined_codes
   \<and> '''' \<notin> set (map snd errorCodeStrings)
   \<and> distinct (map snd errorCodeStrings)
   \<and> (\<forall>c \<in> set defined_codes.
        (\<exists>s. map_of errorCodeStrings c = Some s \<and> s \<noteq> '''' \<and> ErrorCode_String c = s)
        \<and> ErrorCode_String c \<noteq> ''Unknown ErrorCode ('' @ fmt_d c @ '')'')
   \<and> inj_on ErrorCode_String (set defined_codes)"
proof -
  have len: "length defined_codes = 47"
    by (simp add: defined_codes_def)
  have inj: "inj_on ErrorCode_String (set defined_codes)"
    using table_names_distinct distinct_defined_codes
    by (simp only: distinct_map String_defined [symmetric])
  have entry: "(\<exists>s. map_of errorCodeStrings c = Some s \<and> s \<noteq> '''' \<and> ErrorCode_String c = s)
      \<and> ErrorCode_String c \<noteq> ''Unknown ErrorCode ('' @ fmt_d c @ '')''"
    if c: "c \<in> set defined_codes" for c
  proof -
    from c have ne: "map_index errorCodeStrings c \<noteq> ''''"
      and eq: "ErrorCode_String c = map_index errorCodeStrings c"
      by (rule String_is_table_entry)+
    from ne obtain s where s: "map_of errorCodeStrings c = Some s"
      by (cases "map_of errorCodeStrings c") (simp_all add: map_index_def)
    with ne eq have "s \<noteq> ''''" "ErrorCode_String c = s"
      by (simp_all add: map_index_def)
    moreover have "ErrorCode_String c \<noteq> ''Unknown ErrorCode ('' @ fmt_d c @ '')''"
    proof
      assume u: "ErrorCode_String c = ''Unknown ErrorCode ('' @ fmt_d c @ '')''"
      from c have "ErrorCode_String c \<in> set (map ErrorCode_String defined_codes)"
        by simp
      then have "ErrorCode_String c \<in> set (map snd errorCodeStrings)"
        by (simp only: String_defined)
      then have "hd (ErrorCode_String c) = CHR ''E''"
        by (auto simp: errorCodeStrings_def)
      with u show False by simp
    qed
    ultimately show ?thesis using s by simp
  qed
  show ?thesis
    using len table_keys distinct_defined_codes table_names_nonempty table_names_distinct
      entry inj
    by blast
qed

theorem errorCodeStrings_covers_defined_codes_witness:
  "ErrBadCheckpoint \<in> set defined_codes
   \<and> map_of errorCodeStrings ErrBadCheckpoint = Some ''ErrBadCheckpoint''
   \<and> ErrorCode_String ErrBadCheckpoint = ''ErrBadCheckpoint''"
proof -
  have m: "ErrBadCheckpoint \<in> set defined_codes"
    by (simp add: defined_codes_def)
  have t: "map_of errorCodeStrings ErrBadCheckpoint = Some ''ErrBadCheckpoint''"
    by (simp add: errorCodeStrings_def ErrorCode_defs)
  from errorCodeStrings_covers_defined_codes m
  have "\<exists>s. map_of errorCodeStrings ErrBadCheckpoint = Some s \<and> s \<noteq> ''''
      \<and> ErrorCode_String ErrBadCheckpoint = s"
    by blast
  with m t show ?thesis by simp
qed

section \<open>Properties of the engine\<close>

subsection \<open>Spending and restoring entries\<close>

lemma spend_inputs_Some:
  "spend_inputs U ins = Some (U', es) \<Longrightarrow>
     distinct ins \<and> set ins \<subseteq> dom U \<and> U' = U |` (- set ins) \<and> es = map (\<lambda>i. the (U i)) ins"
proof (induction ins arbitrary: U U' es)
  case Nil
  then show ?case by simp
next
  case (Cons i ins)
  from Cons.prems obtain e es' where e: "U i = Some e"
    and rest: "spend_inputs (U(i := None)) ins = Some (U', es')" and es: "es = e # es'"
    by (auto split: option.splits)
  note ih = Cons.IH [OF rest]
  from ih have d: "distinct ins" by blast
  from ih have sub: "set ins \<subseteq> dom (U(i := None))" by blast
  from ih have U': "U' = (U(i := None)) |` (- set ins)" by blast
  from ih have es': "es' = map (\<lambda>j. the ((U(i := None)) j)) ins" by blast
  from sub have fresh: "i \<notin> set ins" by auto
  from sub have sub': "set ins \<subseteq> dom U" by (auto split: if_splits)
  have "U' = U |` (- set (i # ins))"
    unfolding U' by (rule ext) (simp add: restrict_map_def)
  moreover have "es' = map (\<lambda>j. the (U j)) ins"
    unfolding es' using fresh by (induction ins) auto
  ultimately show ?case
    using d fresh sub' e es by auto
qed

lemma map_of_zip_image:
  "map_of (zip xs (map f xs)) k = (if k \<in> set xs then Some (f k) else None)"
  by (induction xs) auto

lemma map_of_zip_outside:
  "k \<notin> set xs \<Longrightarrow> map_of (zip xs ys) k = None"
proof -
  assume "k \<notin> set xs"
  then have "k \<notin> fst ` set (zip xs ys)"
    by (auto dest: set_zip_leftD)
  then show ?thesis
    by (simp add: map_of_eq_None_iff)
qed

lemma connect_tx_undo:
  assumes "connect_tx h U t = Inr (U1, spent)"
  shows "disconnect_tx U1 t spent = Some U"
proof -
  from assms obtain U' where sp: "spend_inputs U (tx_inputs t) = Some (U', spent)"
    and free: "\<forall>k \<in> set (out_keys t). U' k = None"
    and U1: "U1 = U' ++ map_of (zip (out_keys t) (new_entries h t))"
    by (auto simp: connect_tx_def split: option.splits if_splits)
  from spend_inputs_Some [OF sp]
  have sub: "set (tx_inputs t) \<subseteq> dom U" and U': "U' = U |` (- set (tx_inputs t))"
    and spent: "spent = map (\<lambda>i. the (U i)) (tx_inputs t)"
    by simp_all
  have "(U1 |` (- set (out_keys t))) ++ map_of (zip (tx_inputs t) spent) = U"
  proof (rule ext)
    fix k
    show "((U1 |` (- set (out_keys t))) ++ map_of (zip (tx_inputs t) spent)) k = U k"
    proof (cases "k \<in> set (tx_inputs t)")
      case True
      with sub obtain e where "U k = Some e" by auto
      with True show ?thesis
        by (simp add: spent map_of_zip_image map_add_def)
    next
      case False
      then have none: "map_of (zip (tx_inputs t) spent) k = None"
        by (rule map_of_zip_outside)
      from False have same: "U' k = U k" by (simp add: U')
      show ?thesis
      proof (cases "k \<in> set (out_keys t)")
        case True
        with free same have "U k = None" by auto
        with True none show ?thesis by (simp add: map_add_def)
      next
        case False
        then have "map_of (zip (out_keys t) (new_entries h t)) k = None"
          by (rule map_of_zip_outside)
        with False none same show ?thesis
          by (simp add: map_add_def U1)
      qed
    qed
  qed
  moreover have "length spent = length (tx_inputs t)"
    by (simp add: spent)
  ultimately show ?thesis
    by (simp add: disconnect_tx_def)
qed

lemma connect_txs_undo:
  "connect_txs h U ts = Inr (U', spent) \<Longrightarrow> disconnect_txs U' ts spent = Some U"
proof (induction ts arbitrary: U U' spent)
  case Nil
  then show ?case by simp
next
  case (Cons t ts)
  from Cons.prems obtain U1 sp rest where one: "connect_tx h U t = Inr (U1, sp)"
    and more: "connect_txs h U1 ts = Inr (U', rest)" and spent: "spent = sp # rest"
    by (auto split: sum.splits)
  from Cons.IH [OF more] connect_tx_undo [OF one] spent show ?case by simp
qed


lemma connect_block_Inr:
  assumes "connect_block P s b = Inr s'"
  obtains n U spent where "nodes s (blk_hash b) = Some n" and "node_parent n = best s"
    and "connect_txs (node_height n) (utxo s) (blk_txs b) = Inr (U, spent)"
    and "first_violation (connect_rules P) (utxo s, node_height n, b) = None"
    and "s' = s\<lparr>best := blk_hash b, utxo := U, journal := (journal s)(blk_hash b \<mapsto> spent)\<rparr>"
  using assms
  by (auto simp: connect_block_def split: option.splits if_splits sum.splits)

lemma connect_block_connected:
  assumes "connect_block P s0 b = Inr s" and "bodies s0 (blk_hash b) = Some b"
  shows "\<exists>n spent. nodes s (best s) = Some n \<and> bodies s (best s) = Some b
      \<and> blk_hash b = best s \<and> journal s (best s) = Some spent
      \<and> connect_txs (node_height n) (utxo s0) (blk_txs b) = Inr (utxo s, spent)
      \<and> first_violation (connect_rules P) (utxo s0, node_height n, b) = None
      \<and> node_parent n = best s0"
  using assms(1)
proof (rule connect_block_Inr)
  fix n U spent
  assume "nodes s0 (blk_hash b) = Some n" "node_parent n = best s0"
    "connect_txs (node_height n) (utxo s0) (blk_txs b) = Inr (U, spent)"
    "first_violation (connect_rules P) (utxo s0, node_height n, b) = None"
    "s = s0\<lparr>best := blk_hash b, utxo := U, journal := (journal s0)(blk_hash b \<mapsto> spent)\<rparr>"
  with assms(2) show ?thesis by simp
qed

subsection \<open>Rules and errors\<close>

lemma first_violation_append:
  "first_violation (rs @ rs') x =
     (case first_violation rs x of Some c \<Rightarrow> Some c | None \<Rightarrow> first_violation rs' x)"
  by (induction rs) auto

lemma first_violation_Some:
  "first_violation rs x = Some c \<Longrightarrow>
     \<exists>before violated after. rs = before @ (c, violated) # after \<and> violated x
        \<and> first_violation before x = None"
proof (induction rs)
  case Nil
  then show ?case by simp
next
  case (Cons r rs)
  obtain c' v where r: "r = (c', v)" by (cases r)
  show ?case
  proof (cases "v x")
    case True
    with Cons.prems r have "c' = c" by simp
    with True r have "r # rs = [] @ (c, v) # rs \<and> v x \<and> first_violation [] x = None"
      by simp
    then show ?thesis by blast
  next
    case False
    with Cons.prems r have "first_violation rs x = Some c" by simp
    from Cons.IH [OF this] obtain before violated after
      where "rs = before @ (c, violated) # after" "violated x" "first_violation before x = None"
      by blast
    with False r
    have "r # rs = (r # before) @ (c, violated) # after \<and> violated x
        \<and> first_violation (r # before) x = None"
      by simp
    then show ?thesis by blast
  qed
qed

lemma first_violation_None:
  "first_violation rs x = None \<longleftrightarrow> (\<forall>(c, violated) \<in> set rs. \<not> violated x)"
  by (induction rs) (auto split: if_splits)

lemma rule_violation_is_RuleError:
  "assert_RuleError (rule_violation c) = Some (ruleError c (ErrorCode_String c))"
  "ErrorCode (ruleError c d) = c"
  by (simp_all add: rule_violation_def ruleError_def)

lemma rule_violation_inject: "rule_violation c = rule_violation c' \<longleftrightarrow> c = c'"
  by (auto simp: rule_violation_def ruleError_def)

lemma rule_violation_not_assert: "rule_violation c \<noteq> IsAssertError msg"
  by (simp add: rule_violation_def)

lemma apply_admin_ops_Inl:
  "apply_admin_ops P K ops = Inl c \<Longrightarrow>
     c = ErrInvalidAdminOp
     \<and> (\<exists>before who oper after K'. ops = before @ (who, oper) # after
           \<and> apply_admin_ops P K before = Inr K' \<and> \<not> may_submit P K' who oper)"
proof (induction ops arbitrary: K)
  case Nil
  then show ?case by simp
next
  case (Cons x ops)
  obtain who oper where x: "x = (who, oper)" by (cases x)
  show ?case
  proof (cases "may_submit P K who oper")
    case True
    with Cons.prems x have "apply_admin_ops P (apply_admin_op K oper) ops = Inl c"
      by simp
    from Cons.IH [OF this] obtain before who' oper' after K'
      where c: "c = ErrInvalidAdminOp" and ops: "ops = before @ (who', oper') # after"
        and run: "apply_admin_ops P (apply_admin_op K oper) before = Inr K'"
        and refused: "\<not> may_submit P K' who' oper'"
      by blast
    from ops x have "x # ops = ((who, oper) # before) @ (who', oper') # after" by simp
    moreover from run True have "apply_admin_ops P K ((who, oper) # before) = Inr K'"
      by simp
    ultimately show ?thesis using c refused by blast
  next
    case False
    with Cons.prems x have "c = ErrInvalidAdminOp" by simp
    moreover from x have "x # ops = [] @ (who, oper) # ops" by simp
    moreover have "apply_admin_ops P K [] = Inr K" by simp
    ultimately show ?thesis using False by blast
  qed
qed

lemma connect_block_rule_violation:
  assumes "connect_block P s b = Inl (rule_violation c)"
  shows "\<exists>n. nodes s (blk_hash b) = Some n \<and> node_parent n = best s
     \<and> (connect_txs (node_height n) (utxo s) (blk_txs b) = Inl c
        \<or> (\<exists>U spent. connect_txs (node_height n) (utxo s) (blk_txs b) = Inr (U, spent)
             \<and> first_violation (connect_rules P) (utxo s, node_height n, b) = Some c))"
  using assms
  by (auto simp: connect_block_def rule_violation_inject rule_violation_not_assert [symmetric]
      split: option.splits if_splits sum.splits)

lemma connect_block_error:
  "connect_block P s b = Inl e \<Longrightarrow> (\<exists>c. e = rule_violation c) \<or> (\<exists>m. e = IsAssertError m)"
  by (auto simp: connect_block_def split: option.splits if_splits sum.splits)

lemma disconnect_tip_error:
  "disconnect_tip s = Inl e \<Longrightarrow> \<exists>m. e = IsAssertError m"
  by (auto simp: disconnect_tip_def split: option.splits)

lemma rewind_error:
  "rewind k branch s = Inl e \<Longrightarrow> \<exists>m. e = IsAssertError m"
  by (induction k branch s rule: rewind.induct)
    (auto split: if_splits sum.splits dest: disconnect_tip_error)

lemma connect_path_error:
  "connect_path P s hs = Inl e \<Longrightarrow> (\<exists>c. e = rule_violation c) \<or> (\<exists>m. e = IsAssertError m)"
proof (induction hs arbitrary: s)
  case Nil
  then show ?case by simp
next
  case (Cons h hs)
  then show ?case
    by (auto split: option.splits sum.splits dest: connect_block_error)
qed

lemma reorganize_error:
  "reorganize P s n = Inl e \<Longrightarrow> (\<exists>c. e = rule_violation c) \<or> (\<exists>m. e = IsAssertError m)"
  unfolding reorganize_def Let_def
  by (auto split: sum.splits dest: rewind_error connect_path_error)

lemma maybeAcceptBlock_error:
  "maybeAcceptBlock P now s b p = Inl e \<Longrightarrow>
     (\<exists>c. e = rule_violation c) \<or> (\<exists>m. e = IsAssertError m)"
  unfolding maybeAcceptBlock_def Let_def
  by (auto split: option.splits sum.splits if_splits dest: reorganize_error connect_block_error)

subsection \<open>What connect, disconnect and acceptance leave alone\<close>

lemma connect_block_frame:
  "connect_block P s b = Inr s' \<Longrightarrow>
     nodes s' = nodes s \<and> bodies s' = bodies s \<and> orphans s' = orphans s"
  by (erule connect_block_Inr) simp

lemma disconnect_tip_frame:
  "disconnect_tip s = Inr s' \<Longrightarrow>
     nodes s' = nodes s \<and> bodies s' = bodies s \<and> orphans s' = orphans s"
  by (auto simp: disconnect_tip_def split: option.splits)

lemma rewind_frame:
  "rewind k branch s = Inr s' \<Longrightarrow>
     nodes s' = nodes s \<and> bodies s' = bodies s \<and> orphans s' = orphans s"
proof (induction k branch s rule: rewind.induct)
  case (1 branch s)
  then show ?case by (simp split: if_splits)
next
  case (2 k branch s)
  show ?case
  proof (cases "best s \<in> set branch")
    case True
    with "2.prems" show ?thesis by simp
  next
    case False
    with "2.prems" obtain s1 where d: "disconnect_tip s = Inr s1"
      and r: "rewind k branch s1 = Inr s'"
      by (auto split: sum.splits)
    from "2.IH" [OF False d r] disconnect_tip_frame [OF d] show ?thesis by simp
  qed
qed

lemma connect_path_frame:
  "connect_path P s hs = Inr s' \<Longrightarrow>
     nodes s' = nodes s \<and> bodies s' = bodies s \<and> orphans s' = orphans s"
proof (induction hs arbitrary: s)
  case Nil
  then show ?case by simp
next
  case (Cons h hs)
  from Cons.prems obtain b s1 where "bodies s h = Some b"
    and c: "connect_block P s b = Inr s1" and r: "connect_path P s1 hs = Inr s'"
    by (auto split: option.splits sum.splits)
  from Cons.IH [OF r] connect_block_frame [OF c] show ?case by simp
qed

lemma reorganize_frame:
  assumes "reorganize P s n = Inr s'"
  shows "nodes s' = nodes s \<and> bodies s' = bodies s \<and> orphans s' = orphans s"
proof -
  from assms obtain s1 hs where r: "rewind (tip_height s) (map node_hash (ancestry s n)) s = Inr s1"
    and c: "connect_path P s1 hs = Inr s'"
    unfolding reorganize_def Let_def by (auto split: sum.splits)
  from rewind_frame [OF r] connect_path_frame [OF c] show ?thesis by simp
qed

lemma maybeAcceptBlock_frame:
  assumes "maybeAcceptBlock P now s b p = Inr (s', m)"
  shows "nodes s' (blk_hash b) \<noteq> None \<and> (\<forall>h. h \<noteq> blk_hash b \<longrightarrow> nodes s' h = nodes s h)
         \<and> orphans s' = orphans s"
  using assms unfolding maybeAcceptBlock_def Let_def
  by (auto split: option.splits sum.splits if_splits
      dest!: reorganize_frame connect_block_frame)

subsection \<open>The scan of the orphan pool\<close>

lemma process_orphans_error:
  "process_orphans P now pool work s = Inl e \<Longrightarrow> \<exists>msg. e = IsAssertError msg"
proof (induction P now pool work s rule: process_orphans.induct)
  case (1 P now pool s)
  then show ?case by (simp add: process_orphans.simps)
next
  case (2 P now pool h work s)
  show ?case
  proof (cases "find (\<lambda>(ob, expiry). blk_prev ob = h) pool")
    case None
    with "2.prems" "2.IH"(1) show ?thesis by (simp add: process_orphans.simps)
  next
    case (Some x)
    obtain ob expiry where x: "x = (ob, expiry)" by (cases x)
    show ?thesis
    proof (cases "nodes s h")
      case None
      with "2.prems" Some x show ?thesis by (auto simp: process_orphans.simps)
    next
      case p: (Some p)
      show ?thesis
      proof (cases "maybeAcceptBlock P now s ob p")
        case (Inl e')
        show ?thesis
        proof (cases "assert_RuleError e'")
          case None
          with "2.prems" Some x p Inl have "e = e'" by (simp add: process_orphans.simps)
          with maybeAcceptBlock_error [OF Inl] None show ?thesis
            by (auto simp: rule_violation_is_RuleError)
        next
          case rerr: (Some rerr)
          from "2.prems" Some x p Inl rerr
          have "process_orphans P now (remove1 (ob, expiry) pool) (h # work) s = Inl e"
            by (simp add: process_orphans.simps)
          then show ?thesis
            by (rule "2.IH"(2) [OF Some x [symmetric] p Inl rerr])
        qed
      next
        case (Inr r)
        obtain s2 m where r: "r = (s2, m)" by (cases r)
        from "2.prems" Some x p Inr r
        have "process_orphans P now (remove1 (ob, expiry) pool) (h # work @ [blk_hash ob]) s2
            = Inl e"
          by (simp add: process_orphans.simps)
        then show ?thesis
          by (rule "2.IH"(3) [OF Some x [symmetric] p Inr r [symmetric]])
      qed
    qed
  qed
qed

text \<open>
  A scan that ends well is made of four kinds of steps: the end of the work list; a
  hash no orphan waits for; an orphan rejected with a rule violation; an orphan
  accepted. What holds of the first and is kept by the other three holds of the scan.
\<close>

lemma scan_induct [consumes 1, case_names finished skip reject accept]:
  assumes "process_orphans P now pool work s = Inr s'"
    and "\<And>pool s. Q pool [] s (s\<lparr>orphans := pool\<rparr>)"
    and "\<And>pool h work s s'.
        find (\<lambda>(ob, expiry). blk_prev ob = h) pool = None \<Longrightarrow>
        process_orphans P now pool work s = Inr s' \<Longrightarrow>
        Q pool work s s' \<Longrightarrow> Q pool (h # work) s s'"
    and "\<And>pool h work s s' ob expiry p c.
        find (\<lambda>(ob, expiry). blk_prev ob = h) pool = Some (ob, expiry) \<Longrightarrow>
        nodes s h = Some p \<Longrightarrow>
        maybeAcceptBlock P now s ob p = Inl (rule_violation c) \<Longrightarrow>
        process_orphans P now (remove1 (ob, expiry) pool) (h # work) s = Inr s' \<Longrightarrow>
        Q (remove1 (ob, expiry) pool) (h # work) s s' \<Longrightarrow> Q pool (h # work) s s'"
    and "\<And>pool h work s s' ob expiry p s2 onMain.
        find (\<lambda>(ob, expiry). blk_prev ob = h) pool = Some (ob, expiry) \<Longrightarrow>
        nodes s h = Some p \<Longrightarrow>
        maybeAcceptBlock P now s ob p = Inr (s2, onMain) \<Longrightarrow>
        process_orphans P now (remove1 (ob, expiry) pool) (h # work @ [blk_hash ob]) s2
          = Inr s' \<Longrightarrow>
        Q (remove1 (ob, expiry) pool) (h # work @ [blk_hash ob]) s2 s' \<Longrightarrow>
        Q pool (h # work) s s'"
  shows "Q pool work s s'"
  using assms
proof (induction P now pool work s arbitrary: s' rule: process_orphans.induct)
  case (1 P now pool s)
  from "1.prems"(1) have "s' = s\<lparr>orphans := pool\<rparr>"
    by (simp add: process_orphans.simps)
  with "1.prems"(2) show ?case by simp
next
  case (2 P now pool h work s)
  note run = "2.prems"(1) and rules = "2.prems"(2-5)
  show ?case
  proof (cases "find (\<lambda>(ob, expiry). blk_prev ob = h) pool")
    case None
    with run have r: "process_orphans P now pool work s = Inr s'"
      by (simp add: process_orphans.simps)
    from "2.IH"(1) [OF None r rules] have "Q pool work s s'" .
    with None r show ?thesis by (rule "2.prems"(3))
  next
    case (Some x)
    obtain ob expiry where x: "x = (ob, expiry)" by (cases x)
    from Some x have f: "find (\<lambda>(ob, expiry). blk_prev ob = h) pool = Some (ob, expiry)"
      by simp
    show ?thesis
    proof (cases "nodes s h")
      case None
      with run f show ?thesis by (simp add: process_orphans.simps)
    next
      case p: (Some p)
      show ?thesis
      proof (cases "maybeAcceptBlock P now s ob p")
        case (Inl e)
        show ?thesis
        proof (cases "assert_RuleError e")
          case None
          with run f p Inl show ?thesis by (simp add: process_orphans.simps)
        next
          case rerr: (Some rerr)
          with run f p Inl
          have r: "process_orphans P now (remove1 (ob, expiry) pool) (h # work) s = Inr s'"
            by (simp add: process_orphans.simps)
          from maybeAcceptBlock_error [OF Inl] rerr obtain c where "e = rule_violation c"
            by auto
          with Inl have rej: "maybeAcceptBlock P now s ob p = Inl (rule_violation c)"
            by simp
          from "2.IH"(2) [OF Some x [symmetric] p Inl rerr r rules]
          have "Q (remove1 (ob, expiry) pool) (h # work) s s'" .
          with f p rej r show ?thesis by (rule "2.prems"(4))
        qed
      next
        case (Inr r)
        obtain s2 m where r: "r = (s2, m)" by (cases r)
        from Inr r have acc: "maybeAcceptBlock P now s ob p = Inr (s2, m)" by simp
        from run f p acc
        have rest: "process_orphans P now (remove1 (ob, expiry) pool)
            (h # work @ [blk_hash ob]) s2 = Inr s'"
          by (simp add: process_orphans.simps)
        from "2.IH"(3) [OF Some x [symmetric] p Inr r [symmetric] rest rules]
        have "Q (remove1 (ob, expiry) pool) (h # work @ [blk_hash ob]) s2 s'" .
        with f p acc rest show ?thesis by (rule "2.prems"(5))
      qed
    qed
  qed
qed



lemma scan_keeps_nodes:
  "process_orphans P now pool work s = Inr s' \<Longrightarrow> nodes s k \<noteq> None \<Longrightarrow> nodes s' k \<noteq> None"
proof (induction rule: scan_induct)
  case (finished pool s)
  then show ?case by simp
next
  case (skip pool h work s s')
  then show ?case by simp
next
  case (reject pool h work s s' ob expiry p c)
  then show ?case by simp
next
  case (accept pool h work s s' ob expiry p s2 onMain)
  from maybeAcceptBlock_frame [OF accept.hyps(3)] accept.prems have "nodes s2 k \<noteq> None"
    by (cases "k = blk_hash ob") auto
  then show ?case by (rule accept.IH)
qed






subsection \<open>The stages of \<^verbatim>\<open>ProcessBlock\<close>\<close>

lemma ProcessBlock_duplicate:
  "known_block s (blk_hash b) \<Longrightarrow>
     ProcessBlock P now s b = (s, False, False, Some (rule_violation ErrDuplicateBlock))"
  by (simp add: ProcessBlock_def)

lemma ProcessBlock_structural:
  "\<not> known_block s (blk_hash b) \<Longrightarrow> first_violation (structural_rules P) b = Some c \<Longrightarrow>
     ProcessBlock P now s b = (s, False, False, Some (rule_violation c))"
  by (simp add: ProcessBlock_def)

lemma ProcessBlock_context:
  "\<not> known_block s (blk_hash b) \<Longrightarrow> first_violation (structural_rules P) b = None \<Longrightarrow>
   nodes s (blk_prev b) = Some p \<Longrightarrow> checkBlockContext P now s p b = Some c \<Longrightarrow>
     ProcessBlock P now s b = (s, False, False, Some (rule_violation c))"
  by (simp add: ProcessBlock_def maybeAcceptBlock_def)




lemma ProcessBlock_accepted:
  assumes "ProcessBlock P now s b = (s', m, False, None)"
  obtains p s1 where "\<not> known_block s (blk_hash b)"
    and "first_violation (structural_rules P) b = None"
    and "nodes s (blk_prev b) = Some p"
    and "maybeAcceptBlock P now s b p = Inr (s1, m)"
    and "process_orphans P now (orphans s1) [blk_hash b] s1 = Inr s'"
  using assms unfolding ProcessBlock_def
  by (auto split: if_splits option.splits sum.splits)

lemma ProcessBlock_error:
  assumes "ProcessBlock P now s b = (s', m, o', Some e)"
  shows "s' = s \<and> \<not> m \<and> \<not> o' \<and> ((\<exists>c. e = rule_violation c) \<or> (\<exists>msg. e = IsAssertError msg))"
  using assms unfolding ProcessBlock_def
  by (auto split: if_splits option.splits sum.splits
      dest: maybeAcceptBlock_error dest!: process_orphans_error)



lemma ProcessBlock_connect:
  assumes "\<not> known_block s (blk_hash b)"
    and "first_violation (structural_rules P) b = None"
    and "nodes s (blk_prev b) = Some p"
    and "checkBlockContext P now s p b = None"
    and "apply_admin_ops P (node_keys p) (block_admin_ops b) = Inr K"
    and "blk_prev b = best s"
  shows "connect_txs (node_height p + 1) (utxo s) (blk_txs b) = Inl c \<Longrightarrow>
           ProcessBlock P now s b = (s, False, False, Some (rule_violation c))"
    and "connect_txs (node_height p + 1) (utxo s) (blk_txs b) = Inr (U, spent) \<Longrightarrow>
         first_violation (connect_rules P) (utxo s, node_height p + 1, b) = Some c \<Longrightarrow>
           ProcessBlock P now s b = (s, False, False, Some (rule_violation c))"
  using assms
  by (simp_all add: ProcessBlock_def maybeAcceptBlock_def Let_def connect_block_def)





lemma connect_path_append:
  "connect_path P s (hs @ hs') =
     (case connect_path P s hs of Inl e \<Rightarrow> Inl e | Inr s' \<Rightarrow> connect_path P s' hs')"
  by (induction hs arbitrary: s) (auto split: option.splits sum.splits)

lemma reorganize_fails_at:
  assumes "rewind (tip_height s) (map node_hash (ancestry s n)) s = Inr s2"
    and "rev (takeWhile (\<lambda>h. h \<noteq> best s2) (map node_hash (ancestry s n))) = before @ h # after"
    and "connect_path P s2 before = Inr s3"
    and "bodies s3 h = Some bk"
    and "connect_block P s3 bk = Inl e"
  shows "reorganize P s n = Inl e"
  using assms by (simp add: reorganize_def Let_def connect_path_append)

lemma ProcessBlock_admin:
  assumes "\<not> known_block s (blk_hash b)"
    and "first_violation (structural_rules P) b = None"
    and "nodes s (blk_prev b) = Some p"
    and "checkBlockContext P now s p b = None"
    and "apply_admin_ops P (node_keys p) (block_admin_ops b) = Inl c"
  shows "ProcessBlock P now s b = (s, False, False, Some (rule_violation c))"
  using assms by (simp add: ProcessBlock_def maybeAcceptBlock_def)

lemma ProcessBlock_reorganize_fails:
  assumes "\<not> known_block s (blk_hash b)"
    and "first_violation (structural_rules P) b = None"
    and "nodes s (blk_prev b) = Some p"
    and "checkBlockContext P now s p b = None"
    and "apply_admin_ops P (node_keys p) (block_admin_ops b) = Inr K"
    and "nodes s (best s) = Some tip"
    and "blk_prev b \<noteq> best s"
    and "node_work tip < node_work p + work_of_bits P (blk_bits b)"
    and "n = \<lparr>node_hash = blk_hash b, node_parent = blk_prev b,
              node_height = node_height p + 1,
              node_work = node_work p + work_of_bits P (blk_bits b), node_keys = K\<rparr>"
    and "s1 = s\<lparr>nodes := (nodes s)(blk_hash b \<mapsto> n), bodies := (bodies s)(blk_hash b \<mapsto> b)\<rparr>"
    and "rewind (tip_height s1) (map node_hash (ancestry s1 n)) s1 = Inr s2"
    and "rev (takeWhile (\<lambda>h. h \<noteq> best s2) (map node_hash (ancestry s1 n)))
          = before @ h # after"
    and "connect_path P s2 before = Inr s3"
    and "bodies s3 h = Some bk"
    and "connect_block P s3 bk = Inl e"
  shows "ProcessBlock P now s b = (s, False, False, Some e)"
proof -
  have failed: "reorganize P s1 n = Inl e"
    using assms(11-15) by (rule reorganize_fails_at)
  then have "maybeAcceptBlock P now s b p = Inl e"
    using assms(4-10) by (simp add: maybeAcceptBlock_def Let_def)
  with assms(1-3) show ?thesis
    by (simp add: ProcessBlock_def)
qed

lemma ProcessBlock_rule_violation:
  assumes "ProcessBlock P now s b = (s', m, o', Some (rule_violation c))"
  shows "(known_block s (blk_hash b) \<and> c = ErrDuplicateBlock)
     \<or> (\<not> known_block s (blk_hash b) \<and> first_violation (structural_rules P) b = Some c)
     \<or> (\<not> known_block s (blk_hash b) \<and> first_violation (structural_rules P) b = None
          \<and> (\<exists>p. nodes s (blk_prev b) = Some p
                \<and> maybeAcceptBlock P now s b p = Inl (rule_violation c)))"
  using assms unfolding ProcessBlock_def
  by (auto simp: rule_violation_inject rule_violation_not_assert
      split: if_splits option.splits sum.splits dest!: process_orphans_error)

lemma ProcessBlock_nil:
  assumes "ProcessBlock P now s b = (s', m, o', None)"
  shows "(o' \<longrightarrow> \<not> m \<and> nodes s (blk_prev b) = None \<and> s' = add_orphan P now s b)
     \<and> (\<not> o' \<longrightarrow> nodes s' (blk_hash b) \<noteq> None)"
proof (cases o')
  case True
  with assms show ?thesis
    unfolding ProcessBlock_def
    by (auto split: if_splits option.splits sum.splits)
next
  case False
  with assms obtain p s1 where a: "maybeAcceptBlock P now s b p = Inr (s1, m)"
    and run: "process_orphans P now (orphans s1) [blk_hash b] s1 = Inr s'"
    by (auto elim: ProcessBlock_accepted)
  from maybeAcceptBlock_frame [OF a] have "nodes s1 (blk_hash b) \<noteq> None" by simp
  with run have "nodes s' (blk_hash b) \<noteq> None"
    by (rule scan_keeps_nodes)
  with False show ?thesis by simp
qed

subsection \<open>The orphan pool over the calls of \<^verbatim>\<open>ProcessBlock\<close>\<close>












lemma genesis_pool_fresh: "pool_fresh genesis_state"
  by (simp add: pool_fresh_def genesis_state_def)

subsection \<open>The examples, evaluated\<close>

lemmas example_defs =
  example_params_def open_params_def genesis_state_def genesis_node_def genesis_keys_def
  coinbase_def spend_def mk_block_def b11_def b12_def b13_def b21_def b22_def
  b22_missing_def b12_missing_def b12_rich_def b12_admin_def admin_tx_def b_empty_def b42_def b42_empty_def b12_bad_height_def coinbase_entry_def
  node_of_def state_11_def state_12_def state_fork_def before_13_def state_13_def
  waiting_def


lemma chain_from_numeral:
  "chain_from idx (numeral k) h =
     (case idx h of None \<Rightarrow> [] | Some n \<Rightarrow> n # chain_from idx (pred_numeral k) (node_parent n))"
  by (simp add: numeral_eq_Suc)

lemma rewind_numeral:
  "rewind (numeral k) branch s =
     (if best s \<in> set branch then Inr s
      else
        (case disconnect_tip s of
           Inl e \<Rightarrow> Inl e
         | Inr s' \<Rightarrow> rewind (pred_numeral k) branch s'))"
  by (simp add: numeral_eq_Suc)

lemma chain_from_one:
  "chain_from idx 1 h =
     (case idx h of None \<Rightarrow> [] | Some n \<Rightarrow> n # chain_from idx 0 (node_parent n))"
  by simp

lemma rewind_one:
  "rewind 1 branch s =
     (if best s \<in> set branch then Inr s
      else
        (case disconnect_tip s of
           Inl e \<Rightarrow> Inl e
         | Inr s' \<Rightarrow> rewind 0 branch s'))"
  by simp

lemmas engine_defs =
  ProcessBlock_def known_block_def maybeAcceptBlock_def checkBlockContext_def
  context_rules_def ancestry_def block_admin_ops_def connect_block_def connect_tx_def
  out_keys_def new_entries_def tip_height_def add_orphan_def disconnect_tip_def
  disconnect_tx_def reorganize_def process_orphans.simps chain_from_numeral rewind_numeral
  chain_from_one rewind_one rule_violation_is_RuleError

lemma eval_empty:
  "\<not> known_block genesis_state (blk_hash b_empty)"
  "first_violation (structural_rules example_params) b_empty = Some ErrNoTransactions"
  "nodes genesis_state (blk_prev b_empty) = None"
  by (simp_all add: engine_defs example_defs del: One_nat_def)

lemma eval_duplicate: "known_block state_11 (blk_hash b11)"
  by (simp add: engine_defs example_defs del: One_nat_def)

lemma eval_11:
  "ProcessBlock example_params 0 genesis_state b11 = (state_11, True, False, None)"
  by (simp add: engine_defs example_defs del: One_nat_def)

lemma eval_12:
  "ProcessBlock example_params 0 state_11 b12 = (state_12, True, False, None)"
  by (simp add: engine_defs example_defs del: One_nat_def)

lemma eval_13:
  "ProcessBlock example_params 0 state_12 b13 = (state_13, True, False, None)"
  by (simp add: engine_defs example_defs del: One_nat_def)

lemma eval_fork:
  "ProcessBlock open_params 0 state_11 b21 = (state_fork, False, False, None)"
  by (simp add: engine_defs example_defs del: One_nat_def)

lemma eval_bad_height:
  "\<not> known_block state_11 (blk_hash b12_bad_height)"
  "first_violation (structural_rules example_params) b12_bad_height = None"
  "nodes state_11 (blk_prev b12_bad_height) = Some (node_of b11 1)"
  "checkBlockContext example_params 0 state_11 (node_of b11 1) b12_bad_height = Some ErrBadHeight"
  by (simp_all add: engine_defs example_defs del: One_nat_def)

lemma eval_missing:
  "\<not> known_block state_11 (blk_hash b12_missing)"
  "first_violation (structural_rules example_params) b12_missing = None"
  "nodes state_11 (blk_prev b12_missing) = Some (node_of b11 1)"
  "checkBlockContext example_params 0 state_11 (node_of b11 1) b12_missing = None"
  "apply_admin_ops example_params (node_keys (node_of b11 1)) (block_admin_ops b12_missing)
     = Inr genesis_keys"
  "blk_prev b12_missing = best state_11"
  "connect_txs (node_height (node_of b11 1) + 1) (utxo state_11) (blk_txs b12_missing)
     = Inl ErrMissingTx"
  by (simp_all add: engine_defs example_defs del: One_nat_def)

lemma eval_admin_refused:
  "\<not> known_block state_11 (blk_hash (b12_admin 8))"
  "first_violation (structural_rules example_params) (b12_admin 8) = None"
  "nodes state_11 (blk_prev (b12_admin 8)) = Some (node_of b11 1)"
  "checkBlockContext example_params 0 state_11 (node_of b11 1) (b12_admin 8) = None"
  "apply_admin_ops example_params (node_keys (node_of b11 1)) (block_admin_ops (b12_admin 8))
     = Inl ErrInvalidAdminOp"
  by (simp_all add: engine_defs example_defs del: One_nat_def)

lemma eval_admin_accepted:
  "fst (snd (ProcessBlock example_params 0 state_11 (b12_admin 7)))"
  "snd (snd (snd (ProcessBlock example_params 0 state_11 (b12_admin 7)))) = None"
  "map_option (\<lambda>K. K Issuing)
     (AdminKeySets (fst (ProcessBlock example_params 0 state_11 (b12_admin 7)))) = Some {9}"
  "map_option (\<lambda>K. K Issuing) (AdminKeySets state_11) = Some {}"
  by (simp_all add: engine_defs example_defs AdminKeySets_def del: One_nat_def)

text \<open>
  The scenario of section 8: the admin transaction that adds the issuing key 9,
  submitted by the provisioning key 7, is accepted, and \<^verbatim>\<open>testAcceptedBlock\<close> finds
  the key in the issuing keys of \<^verbatim>\<open>AdminKeySets()\<close>; it does not find it in those of
  the state before.
\<close>

lemma eval_admin_test:
  "testAcceptedBlock True False (Some 9)
     (snd (ProcessBlock example_params 0 state_11 (b12_admin 7)))
     (case AdminKeySets (fst (ProcessBlock example_params 0 state_11 (b12_admin 7))) of
        None \<Rightarrow> {} | Some K \<Rightarrow> K Issuing) = Pass"
  "testAcceptedBlock True False (Some 9) (True, False, None)
     (case AdminKeySets state_11 of None \<Rightarrow> {} | Some K \<Rightarrow> K Issuing)
     = Fatal ''should have admin key''"
  "testAcceptedBlock True False None (True, False, None)
     (case AdminKeySets state_11 of None \<Rightarrow> {} | Some K \<Rightarrow> K Issuing) = Pass"
  by (simp_all add: testAcceptedBlock_def engine_defs example_defs AdminKeySets_def
      del: One_nat_def)

lemma eval_rich:
  "\<not> known_block state_11 (blk_hash b12_rich)"
  "first_violation (structural_rules example_params) b12_rich = None"
  "nodes state_11 (blk_prev b12_rich) = Some (node_of b11 1)"
  "checkBlockContext example_params 0 state_11 (node_of b11 1) b12_rich = None"
  "apply_admin_ops example_params (node_keys (node_of b11 1)) (block_admin_ops b12_rich)
     = Inr genesis_keys"
  "blk_prev b12_rich = best state_11"
  "connect_txs (node_height (node_of b11 1) + 1) (utxo state_11) (blk_txs b12_rich)
     = Inr ([(111, 0) \<mapsto> coinbase_entry 1,
             (112, 0) \<mapsto> \<lparr>entry_amount = 51, entry_coinbase = True, entry_height = 2\<rparr>],
            [[]])"
  "first_violation (connect_rules example_params)
     (utxo state_11, node_height (node_of b11 1) + 1, b12_rich) = Some ErrBadCoinbaseValue"
  by (simp_all add: engine_defs example_defs del: One_nat_def)

lemma eval_duplicate_result:
  "ProcessBlock example_params 0 state_11 b11
     = (state_11, False, False, Some (rule_violation ErrDuplicateBlock))"
  using eval_duplicate by (rule ProcessBlock_duplicate)

lemma eval_tip_13:
  "nodes state_13 (best state_13) = Some (node_of b13 3)"
  "bodies state_13 (best state_13) = Some b13"
  "blk_hash b13 = best state_13"
  "journal state_13 (best state_13) = Some [[], [coinbase_entry 1]]"
  "connect_txs (node_height (node_of b13 3)) (utxo state_12) (blk_txs b13)
     = Inr (utxo state_13, [[], [coinbase_entry 1]])"
  "first_violation (connect_rules example_params)
     (utxo state_12, node_height (node_of b13 3), b13) = None"
  by (simp_all add: engine_defs example_defs del: One_nat_def)

lemma eval_state_13:
  "utxo state_12 (111, 0) = Some (coinbase_entry 1)"
  "utxo state_13 (111, 0) = None"
  "node_parent (node_of b13 3) = 12"
  "node_height (node_of b13 3) = 3"
  "map_option node_keys (nodes state_13 12) = Some genesis_keys"
  "AdminKeySets state_13 = Some genesis_keys"
  by (simp_all add: AdminKeySets_def example_defs)

lemma eval_reorg_fails:
  "\<not> known_block state_fork (blk_hash b22_missing)"
  "first_violation (structural_rules open_params) b22_missing = None"
  "nodes state_fork (blk_prev b22_missing) = Some (node_of b21 1)"
  "checkBlockContext open_params 0 state_fork (node_of b21 1) b22_missing = None"
  "apply_admin_ops open_params (node_keys (node_of b21 1)) (block_admin_ops b22_missing)
     = Inr genesis_keys"
  "nodes state_fork (best state_fork) = Some (node_of b11 1)"
  "blk_prev b22_missing \<noteq> best state_fork"
  "node_work (node_of b11 1) < node_work (node_of b21 1) + work_of_bits open_params (blk_bits b22_missing)"
  by (simp_all add: engine_defs example_defs del: One_nat_def)

lemma eval_replay:
  "node_of b22_missing 6 =
      \<lparr>node_hash = blk_hash b22_missing, node_parent = blk_prev b22_missing,
       node_height = node_height (node_of b21 1) + 1,
       node_work = node_work (node_of b21 1) + work_of_bits open_params (blk_bits b22_missing),
       node_keys = genesis_keys\<rparr>"
  "fork_22 =
      state_fork\<lparr>nodes := (nodes state_fork)(blk_hash b22_missing \<mapsto> node_of b22_missing 6),
                 bodies := (bodies state_fork)(blk_hash b22_missing \<mapsto> b22_missing)\<rparr>"
  "rewind (tip_height fork_22) (map node_hash (ancestry fork_22 (node_of b22_missing 6))) fork_22
     = Inr fork_rewound"
  "rev (takeWhile (\<lambda>h. h \<noteq> best fork_rewound)
       (map node_hash (ancestry fork_22 (node_of b22_missing 6)))) = [21] @ 22 # []"
  "connect_path open_params fork_rewound [21] = Inr fork_21"
  "bodies fork_21 22 = Some b22_missing"
  "connect_block open_params fork_21 b22_missing = Inl (rule_violation ErrMissingTx)"
  by (simp_all add: engine_defs example_defs fork_22_def fork_rewound_def fork_21_def
      del: One_nat_def)

lemma eval_reorg_succeeds:
  "fst (snd (ProcessBlock open_params 0 state_fork b22))"
  "best (fst (ProcessBlock open_params 0 state_fork b22)) = 22"
  "utxo (fst (ProcessBlock open_params 0 state_fork b22)) (111, 0) = None"
  "utxo (fst (ProcessBlock open_params 0 state_fork b22)) (121, 0) = Some (coinbase_entry 1)"
  by (simp_all add: engine_defs example_defs del: One_nat_def)

lemma eval_checkpoint:
  "\<not> known_block state_11 (blk_hash b42)"
  "first_violation (structural_rules example_params) b42 = None"
  "nodes state_11 (blk_prev b42) = Some (node_of b11 1)"
  "blk_height b42 = node_height (node_of b11 1) + 1"
  "first_violation (context_rules_pre example_params) (ancestry state_11 (node_of b11 1), 0, b42) = None"
  "map_of (checkpoints example_params) (blk_height b42) = Some 12"
  "blk_hash b42 \<noteq> 12"
  by (simp_all add: engine_defs example_defs del: One_nat_def)

lemma eval_fork_too_old:
  "\<not> known_block state_12 (blk_hash b21)"
  "first_violation (structural_rules example_params) b21 = None"
  "nodes state_12 (blk_prev b21) = Some genesis_node"
  "blk_height b21 = node_height genesis_node + 1"
  "first_violation (context_rules_pre example_params) (ancestry state_12 genesis_node, 0, b21) = None"
  "map_of (checkpoints example_params) (blk_height b21) = None"
  "(2, 12) \<in> set (checkpoints example_params)"
  "2 \<le> tip_height state_12"
  "blk_height b21 \<le> 2"
  by (simp_all add: engine_defs example_defs del: One_nat_def)

lemma eval_checkpoint_empty:
  "\<not> known_block state_11 (blk_hash b42_empty)"
  "first_violation (structural_rules example_params) b42_empty = Some ErrNoTransactions"
  "blk_height b42_empty = 2"
  "blk_hash b42_empty \<noteq> 12"
  "nodes state_11 (blk_prev b42_empty) \<noteq> None"
  by (simp_all add: engine_defs example_defs del: One_nat_def)

lemma eval_checkpoint_at:
  "ProcessBlock example_params 0 state_12 b42
     = (state_12, False, False, Some (rule_violation ErrBadCheckpoint))"
  by (simp add: engine_defs example_defs del: One_nat_def)






subsection \<open>A failed reorganization\<close>

text \<open>
  A block that reaches the chain selection with more cumulative work than the best tip
  and another parent starts a reorganization: the old blocks are disconnected down to
  the common ancestor and the blocks of the new path are connected in order. If
  connecting any block of the new path fails, after whatever blocks before it on the
  path were connected, \<^verbatim>\<open>ProcessBlock\<close> returns the state it was given and the error
  with both flags false. The model has this by the way it is built (the state worked on
  is dropped on failure); the lemma records it, and the example after it runs it.
\<close>

lemma failed_reorganization_leaves_state:
  assumes "\<not> known_block s (blk_hash b)"
    and "first_violation (structural_rules P) b = None"
    and "nodes s (blk_prev b) = Some p"
    and "checkBlockContext P now s p b = None"
    and "apply_admin_ops P (node_keys p) (block_admin_ops b) = Inr K"
    and "nodes s (best s) = Some tip"
    and "blk_prev b \<noteq> best s"
    and "node_work tip < node_work p + work_of_bits P (blk_bits b)"
    and "n = \<lparr>node_hash = blk_hash b, node_parent = blk_prev b,
              node_height = node_height p + 1,
              node_work = node_work p + work_of_bits P (blk_bits b), node_keys = K\<rparr>"
    and "s1 = s\<lparr>nodes := (nodes s)(blk_hash b \<mapsto> n), bodies := (bodies s)(blk_hash b \<mapsto> b)\<rparr>"
    and "rewind (tip_height s1) (map node_hash (ancestry s1 n)) s1 = Inr s2"
    and "rev (takeWhile (\<lambda>h. h \<noteq> best s2) (map node_hash (ancestry s1 n)))
          = before @ h # after"
    and "connect_path P s2 before = Inr s3"
    and "bodies s3 h = Some bk"
    and "connect_block P s3 bk = Inl e"
  shows "ProcessBlock P now s b = (s, False, False, Some e)
         \<and> ((\<exists>code. e = rule_violation code) \<or> (\<exists>msg. e = IsAssertError msg))
         \<and> testAcceptedBlock wantMain wantOrphan adminKey (False, False, Some e) stateKeys \<noteq> Pass
         \<and> testOrphanOrRejectedBlock (False, False, Some e) \<noteq> Pass"
proof -
  have failed: "reorganize P s1 n = Inl e"
    using assms(11-15) by (rule reorganize_fails_at)
  then have "maybeAcceptBlock P now s b p = Inl e"
    using assms(4-10) by (simp add: maybeAcceptBlock_def Let_def)
  with assms(1-3) have "ProcessBlock P now s b = (s, False, False, Some e)"
    by (simp add: ProcessBlock_def)
  moreover from assms(15)
  have "(\<exists>code. e = rule_violation code) \<or> (\<exists>msg. e = IsAssertError msg)"
    by (rule connect_block_error)
  moreover have "testAcceptedBlock wantMain wantOrphan adminKey (False, False, Some e) stateKeys \<noteq> Pass"
    by (simp add: testAcceptedBlock_def)
  moreover have "testOrphanOrRejectedBlock (False, False, Some e) \<noteq> Pass"
    by (simp add: testOrphanOrRejectedBlock_def split: option.splits)
  ultimately show ?thesis by blast
qed

lemma eval_failed_reorganization:
  "ProcessBlock open_params 0 state_11 b21 = (state_fork, False, False, None)
   \<and> rewind (tip_height fork_22) (map node_hash (ancestry fork_22 (node_of b22_missing 6)))
        fork_22 = Inr fork_rewound
   \<and> connect_path open_params fork_rewound [21] = Inr fork_21
   \<and> connect_block open_params fork_21 b22_missing = Inl (rule_violation ErrMissingTx)
   \<and> ProcessBlock open_params 0 state_fork b22_missing
       = (state_fork, False, False, Some (rule_violation ErrMissingTx))"
proof -
  from failed_reorganization_leaves_state [OF eval_reorg_fails eval_replay]
  have "ProcessBlock open_params 0 state_fork b22_missing
       = (state_fork, False, False, Some (rule_violation ErrMissingTx))"
    by (rule conjunct1)
  with eval_fork eval_replay(3,5,7) show ?thesis by blast
qed

section \<open>The claims on the engine\<close>

text \<open>
  Claim C1. When \<^verbatim>\<open>ProcessBlock\<close> rejects a block for a rule violation, the error it
  returns is a RuleError with the code of the rule violated, at every stage at which a
  block can be rejected: the duplicate code for a known block; the code of the first
  structural rule the block violates; the code of the first context rule it violates;
  \<^verbatim>\<open>ErrInvalidAdminOp\<close> for an admin operation its submitter may not submit; the code
  reported when its transactions cannot be connected to the UTXO set on the best tip;
  the code of the first rule of connection it violates there; and, when the block starts
  a reorganization, the code reported for the block of the new path that cannot be
  connected. Every error \<^verbatim>\<open>ProcessBlock\<close> returns is a rule violation or an assertion
  failure, never a value of another type; with an error the two flags are false and the
  state is the one before the call; a rule violation returned is that of the block
  presented, found by the duplicate check, the structural validation or the acceptance
  of the block. With no error either the block is held as an orphan and is not on the
  main chain, or it has a chain node. A rule violation passes the type assertion and
  the code comparison of \<^verbatim>\<open>testRejectedBlock\<close>.
\<close>

theorem ProcessBlock_rejects_with_RuleError:
  "(known_block s (blk_hash b) \<longrightarrow>
      ProcessBlock P now s b = (s, False, False, Some (rule_violation ErrDuplicateBlock)))
   \<and> (\<not> known_block s (blk_hash b) \<and> first_violation (structural_rules P) b = Some c \<longrightarrow>
        ProcessBlock P now s b = (s, False, False, Some (rule_violation c))
        \<and> (\<exists>violated. (c, violated) \<in> set (structural_rules P) \<and> violated b))
   \<and> (\<not> known_block s (blk_hash b) \<and> first_violation (structural_rules P) b = None
        \<and> nodes s (blk_prev b) = Some p \<and> checkBlockContext P now s p b = Some c \<longrightarrow>
        ProcessBlock P now s b = (s, False, False, Some (rule_violation c))
        \<and> (\<exists>violated. (c, violated) \<in> set (context_rules P s p)
              \<and> violated (ancestry s p, now, b)))
   \<and> (\<not> known_block s (blk_hash b) \<and> first_violation (structural_rules P) b = None
        \<and> nodes s (blk_prev b) = Some p \<and> checkBlockContext P now s p b = None
        \<and> apply_admin_ops P (node_keys p) (block_admin_ops b) = Inl c \<longrightarrow>
        ProcessBlock P now s b = (s, False, False, Some (rule_violation c))
        \<and> c = ErrInvalidAdminOp
        \<and> (\<exists>earlier who oper later K'.
              block_admin_ops b = earlier @ (who, oper) # later
              \<and> apply_admin_ops P (node_keys p) earlier = Inr K'
              \<and> \<not> may_submit P K' who oper))
   \<and> (\<not> known_block s (blk_hash b) \<and> first_violation (structural_rules P) b = None
        \<and> nodes s (blk_prev b) = Some p \<and> checkBlockContext P now s p b = None
        \<and> apply_admin_ops P (node_keys p) (block_admin_ops b) = Inr K
        \<and> blk_prev b = best s
        \<and> connect_txs (node_height p + 1) (utxo s) (blk_txs b) = Inl c \<longrightarrow>
        ProcessBlock P now s b = (s, False, False, Some (rule_violation c)))
   \<and> (\<not> known_block s (blk_hash b) \<and> first_violation (structural_rules P) b = None
        \<and> nodes s (blk_prev b) = Some p \<and> checkBlockContext P now s p b = None
        \<and> apply_admin_ops P (node_keys p) (block_admin_ops b) = Inr K
        \<and> blk_prev b = best s
        \<and> connect_txs (node_height p + 1) (utxo s) (blk_txs b) = Inr (U, spent)
        \<and> first_violation (connect_rules P) (utxo s, node_height p + 1, b) = Some c \<longrightarrow>
        ProcessBlock P now s b = (s, False, False, Some (rule_violation c))
        \<and> (\<exists>violated. (c, violated) \<in> set (connect_rules P)
              \<and> violated (utxo s, node_height p + 1, b)))
   \<and> (\<not> known_block s (blk_hash b) \<and> first_violation (structural_rules P) b = None
        \<and> nodes s (blk_prev b) = Some p \<and> checkBlockContext P now s p b = None
        \<and> apply_admin_ops P (node_keys p) (block_admin_ops b) = Inr K
        \<and> nodes s (best s) = Some tip
        \<and> blk_prev b \<noteq> best s
        \<and> node_work tip < node_work p + work_of_bits P (blk_bits b)
        \<and> n = \<lparr>node_hash = blk_hash b, node_parent = blk_prev b,
                node_height = node_height p + 1,
                node_work = node_work p + work_of_bits P (blk_bits b), node_keys = K\<rparr>
        \<and> s1 = s\<lparr>nodes := (nodes s)(blk_hash b \<mapsto> n), bodies := (bodies s)(blk_hash b \<mapsto> b)\<rparr>
        \<and> rewind (tip_height s1) (map node_hash (ancestry s1 n)) s1 = Inr s2
        \<and> rev (takeWhile (\<lambda>h. h \<noteq> best s2) (map node_hash (ancestry s1 n)))
            = before @ h # after
        \<and> connect_path P s2 before = Inr s3
        \<and> bodies s3 h = Some bk
        \<and> connect_block P s3 bk = Inl (rule_violation c) \<longrightarrow>
        ProcessBlock P now s b = (s, False, False, Some (rule_violation c))
        \<and> (\<exists>nk. nodes s3 (blk_hash bk) = Some nk
              \<and> (connect_txs (node_height nk) (utxo s3) (blk_txs bk) = Inl c
                 \<or> (\<exists>U' spent'.
                       connect_txs (node_height nk) (utxo s3) (blk_txs bk) = Inr (U', spent')
                       \<and> first_violation (connect_rules P) (utxo s3, node_height nk, bk)
                           = Some c))))
   \<and> (ProcessBlock P now s b = (s', m, o', Some e) \<longrightarrow>
        s' = s \<and> \<not> m \<and> \<not> o'
        \<and> ((\<exists>code. e = rule_violation code) \<or> (\<exists>msg. e = IsAssertError msg)))
   \<and> (ProcessBlock P now s b = (s', m, o', Some (rule_violation c)) \<longrightarrow>
        (known_block s (blk_hash b) \<and> c = ErrDuplicateBlock)
        \<or> (\<not> known_block s (blk_hash b) \<and> first_violation (structural_rules P) b = Some c)
        \<or> (\<not> known_block s (blk_hash b) \<and> first_violation (structural_rules P) b = None
             \<and> (\<exists>p. nodes s (blk_prev b) = Some p
                   \<and> maybeAcceptBlock P now s b p = Inl (rule_violation c))))
   \<and> (ProcessBlock P now s b = (s', m, o', None) \<longrightarrow>
        (o' \<longrightarrow> \<not> m \<and> nodes s (blk_prev b) = None \<and> s' = add_orphan P now s b)
        \<and> (\<not> o' \<longrightarrow> nodes s' (blk_hash b) \<noteq> None))
   \<and> assert_RuleError (rule_violation code) = Some (ruleError code (ErrorCode_String code))
   \<and> testRejectedBlock code (m', o'', Some (rule_violation code)) = Pass"
proof -
  have structural: "\<exists>violated. (c, violated) \<in> set (structural_rules P) \<and> violated b"
    if "first_violation (structural_rules P) b = Some c"
    using first_violation_Some [OF that] by auto
  have ctx: "\<exists>violated. (c, violated) \<in> set (context_rules P s p)
      \<and> violated (ancestry s p, now, b)"
    if "checkBlockContext P now s p b = Some c"
    using first_violation_Some [OF that [unfolded checkBlockContext_def]] by auto
  have conn: "\<exists>violated. (c, violated) \<in> set (connect_rules P)
      \<and> violated (utxo s, node_height p + 1, b)"
    if "first_violation (connect_rules P) (utxo s, node_height p + 1, b) = Some c"
    using first_violation_Some [OF that] by auto
  have a1: "known_block s (blk_hash b) \<longrightarrow>
      ProcessBlock P now s b = (s, False, False, Some (rule_violation ErrDuplicateBlock))"
    using ProcessBlock_duplicate by blast
  have a2: "\<not> known_block s (blk_hash b) \<and> first_violation (structural_rules P) b = Some c \<longrightarrow>
        ProcessBlock P now s b = (s, False, False, Some (rule_violation c))
        \<and> (\<exists>violated. (c, violated) \<in> set (structural_rules P) \<and> violated b)"
    using ProcessBlock_structural [of s b P c now] structural by blast
  have a3: "\<not> known_block s (blk_hash b) \<and> first_violation (structural_rules P) b = None
        \<and> nodes s (blk_prev b) = Some p \<and> checkBlockContext P now s p b = Some c \<longrightarrow>
        ProcessBlock P now s b = (s, False, False, Some (rule_violation c))
        \<and> (\<exists>violated. (c, violated) \<in> set (context_rules P s p)
              \<and> violated (ancestry s p, now, b))"
    using ProcessBlock_context [of s b P p now c] ctx by blast
  have a4: "\<not> known_block s (blk_hash b) \<and> first_violation (structural_rules P) b = None
        \<and> nodes s (blk_prev b) = Some p \<and> checkBlockContext P now s p b = None
        \<and> apply_admin_ops P (node_keys p) (block_admin_ops b) = Inl c \<longrightarrow>
        ProcessBlock P now s b = (s, False, False, Some (rule_violation c))
        \<and> c = ErrInvalidAdminOp
        \<and> (\<exists>earlier who oper later K'.
              block_admin_ops b = earlier @ (who, oper) # later
              \<and> apply_admin_ops P (node_keys p) earlier = Inr K'
              \<and> \<not> may_submit P K' who oper)"
    using ProcessBlock_admin [of s b P p now c]
      apply_admin_ops_Inl [of P "node_keys p" "block_admin_ops b" c]
    by blast
  have a5: "\<not> known_block s (blk_hash b) \<and> first_violation (structural_rules P) b = None
        \<and> nodes s (blk_prev b) = Some p \<and> checkBlockContext P now s p b = None
        \<and> apply_admin_ops P (node_keys p) (block_admin_ops b) = Inr K
        \<and> blk_prev b = best s
        \<and> connect_txs (node_height p + 1) (utxo s) (blk_txs b) = Inl c \<longrightarrow>
        ProcessBlock P now s b = (s, False, False, Some (rule_violation c))"
    using ProcessBlock_connect(1) [of s b P p now K c] by blast
  have a6: "\<not> known_block s (blk_hash b) \<and> first_violation (structural_rules P) b = None
        \<and> nodes s (blk_prev b) = Some p \<and> checkBlockContext P now s p b = None
        \<and> apply_admin_ops P (node_keys p) (block_admin_ops b) = Inr K
        \<and> blk_prev b = best s
        \<and> connect_txs (node_height p + 1) (utxo s) (blk_txs b) = Inr (U, spent)
        \<and> first_violation (connect_rules P) (utxo s, node_height p + 1, b) = Some c \<longrightarrow>
        ProcessBlock P now s b = (s, False, False, Some (rule_violation c))
        \<and> (\<exists>violated. (c, violated) \<in> set (connect_rules P)
              \<and> violated (utxo s, node_height p + 1, b))"
    using ProcessBlock_connect(2) [of s b P p now K U spent c] conn by blast
  have a7: "\<not> known_block s (blk_hash b) \<and> first_violation (structural_rules P) b = None
        \<and> nodes s (blk_prev b) = Some p \<and> checkBlockContext P now s p b = None
        \<and> apply_admin_ops P (node_keys p) (block_admin_ops b) = Inr K
        \<and> nodes s (best s) = Some tip
        \<and> blk_prev b \<noteq> best s
        \<and> node_work tip < node_work p + work_of_bits P (blk_bits b)
        \<and> n = \<lparr>node_hash = blk_hash b, node_parent = blk_prev b,
                node_height = node_height p + 1,
                node_work = node_work p + work_of_bits P (blk_bits b), node_keys = K\<rparr>
        \<and> s1 = s\<lparr>nodes := (nodes s)(blk_hash b \<mapsto> n), bodies := (bodies s)(blk_hash b \<mapsto> b)\<rparr>
        \<and> rewind (tip_height s1) (map node_hash (ancestry s1 n)) s1 = Inr s2
        \<and> rev (takeWhile (\<lambda>h. h \<noteq> best s2) (map node_hash (ancestry s1 n)))
            = before @ h # after
        \<and> connect_path P s2 before = Inr s3
        \<and> bodies s3 h = Some bk
        \<and> connect_block P s3 bk = Inl (rule_violation c) \<longrightarrow>
        ProcessBlock P now s b = (s, False, False, Some (rule_violation c))
        \<and> (\<exists>nk. nodes s3 (blk_hash bk) = Some nk
              \<and> (connect_txs (node_height nk) (utxo s3) (blk_txs bk) = Inl c
                 \<or> (\<exists>U' spent'.
                       connect_txs (node_height nk) (utxo s3) (blk_txs bk) = Inr (U', spent')
                       \<and> first_violation (connect_rules P) (utxo s3, node_height nk, bk)
                           = Some c)))"
  proof (intro impI, elim conjE)
    assume h: "\<not> known_block s (blk_hash b)" "first_violation (structural_rules P) b = None"
      "nodes s (blk_prev b) = Some p" "checkBlockContext P now s p b = None"
      "apply_admin_ops P (node_keys p) (block_admin_ops b) = Inr K"
      "nodes s (best s) = Some tip" "blk_prev b \<noteq> best s"
      "node_work tip < node_work p + work_of_bits P (blk_bits b)"
      "n = \<lparr>node_hash = blk_hash b, node_parent = blk_prev b,
                node_height = node_height p + 1,
                node_work = node_work p + work_of_bits P (blk_bits b), node_keys = K\<rparr>"
      "s1 = s\<lparr>nodes := (nodes s)(blk_hash b \<mapsto> n), bodies := (bodies s)(blk_hash b \<mapsto> b)\<rparr>"
      "rewind (tip_height s1) (map node_hash (ancestry s1 n)) s1 = Inr s2"
      "rev (takeWhile (\<lambda>h. h \<noteq> best s2) (map node_hash (ancestry s1 n)))
            = before @ h # after"
      "connect_path P s2 before = Inr s3"
      "bodies s3 h = Some bk"
      "connect_block P s3 bk = Inl (rule_violation c)"
    from h have "ProcessBlock P now s b = (s, False, False, Some (rule_violation c))"
      by (rule ProcessBlock_reorganize_fails)
    with connect_block_rule_violation [OF h(15)]
    show "ProcessBlock P now s b = (s, False, False, Some (rule_violation c))
        \<and> (\<exists>nk. nodes s3 (blk_hash bk) = Some nk
              \<and> (connect_txs (node_height nk) (utxo s3) (blk_txs bk) = Inl c
                 \<or> (\<exists>U' spent'.
                       connect_txs (node_height nk) (utxo s3) (blk_txs bk) = Inr (U', spent')
                       \<and> first_violation (connect_rules P) (utxo s3, node_height nk, bk)
                           = Some c)))"
      by blast
  qed
  have a8: "ProcessBlock P now s b = (s', m, o', Some e) \<longrightarrow>
        s' = s \<and> \<not> m \<and> \<not> o'
        \<and> ((\<exists>code. e = rule_violation code) \<or> (\<exists>msg. e = IsAssertError msg))"
    using ProcessBlock_error [of P now s b s' m o' e] by blast
  have a9: "ProcessBlock P now s b = (s', m, o', Some (rule_violation c)) \<longrightarrow>
        (known_block s (blk_hash b) \<and> c = ErrDuplicateBlock)
        \<or> (\<not> known_block s (blk_hash b) \<and> first_violation (structural_rules P) b = Some c)
        \<or> (\<not> known_block s (blk_hash b) \<and> first_violation (structural_rules P) b = None
             \<and> (\<exists>p. nodes s (blk_prev b) = Some p
                   \<and> maybeAcceptBlock P now s b p = Inl (rule_violation c)))"
    by (rule impI) (rule ProcessBlock_rule_violation)
  have a10: "ProcessBlock P now s b = (s', m, o', None) \<longrightarrow>
        (o' \<longrightarrow> \<not> m \<and> nodes s (blk_prev b) = None \<and> s' = add_orphan P now s b)
        \<and> (\<not> o' \<longrightarrow> nodes s' (blk_hash b) \<noteq> None)"
    by (rule impI) (rule ProcessBlock_nil)
  have a11: "assert_RuleError (rule_violation code) = Some (ruleError code (ErrorCode_String code))"
    by (rule rule_violation_is_RuleError)
  have a12: "testRejectedBlock code (m', o'', Some (rule_violation code)) = Pass"
    by (simp add: testRejectedBlock_def rule_violation_is_RuleError)
  show ?thesis
    apply (intro conjI)
               apply (rule a1)
              apply (rule a2)
             apply (rule a3)
            apply (rule a4)
           apply (rule a5)
          apply (rule a6)
         apply (rule a7)
        apply (rule a8)
       apply (rule a9)
      apply (rule a10)
     apply (rule a11)
    apply (rule a12)
    done
qed

theorem ProcessBlock_rejects_with_RuleError_witness:
  "known_block state_11 (blk_hash b11)
   \<and> ProcessBlock example_params 0 state_11 b11
       = (state_11, False, False, Some (rule_violation ErrDuplicateBlock))
   \<and> first_violation (structural_rules example_params) b_empty = Some ErrNoTransactions
   \<and> ProcessBlock example_params 0 genesis_state b_empty
       = (genesis_state, False, False, Some (rule_violation ErrNoTransactions))
   \<and> checkBlockContext example_params 0 state_11 (node_of b11 1) b12_bad_height
       = Some ErrBadHeight
   \<and> ProcessBlock example_params 0 state_11 b12_bad_height
       = (state_11, False, False, Some (rule_violation ErrBadHeight))
   \<and> apply_admin_ops example_params (node_keys (node_of b11 1)) (block_admin_ops (b12_admin 8))
       = Inl ErrInvalidAdminOp
   \<and> ProcessBlock example_params 0 state_11 (b12_admin 8)
       = (state_11, False, False, Some (rule_violation ErrInvalidAdminOp))
   \<and> connect_txs (node_height (node_of b11 1) + 1) (utxo state_11) (blk_txs b12_missing)
       = Inl ErrMissingTx
   \<and> ProcessBlock example_params 0 state_11 b12_missing
       = (state_11, False, False, Some (rule_violation ErrMissingTx))
   \<and> first_violation (connect_rules example_params)
        (utxo state_11, node_height (node_of b11 1) + 1, b12_rich) = Some ErrBadCoinbaseValue
   \<and> ProcessBlock example_params 0 state_11 b12_rich
       = (state_11, False, False, Some (rule_violation ErrBadCoinbaseValue))
   \<and> connect_block open_params fork_21 b22_missing = Inl (rule_violation ErrMissingTx)
   \<and> ProcessBlock open_params 0 state_fork b22_missing
       = (state_fork, False, False, Some (rule_violation ErrMissingTx))
   \<and> ProcessBlock example_params 0 genesis_state b11 = (state_11, True, False, None)
   \<and> nodes state_11 (blk_hash b11) \<noteq> None
   \<and> testRejectedBlock ErrMissingTx (False, False, Some (rule_violation ErrMissingTx)) = Pass"
proof -
  note duplicate = ProcessBlock_rejects_with_RuleError
      [where s = state_11 and b = b11 and P = example_params and now = 0, THEN conjunct1]
  note structural = ProcessBlock_rejects_with_RuleError
      [where s = genesis_state and b = b_empty and P = example_params and now = 0
        and c = ErrNoTransactions, THEN conjunct2, THEN conjunct1]
  note contextual = ProcessBlock_rejects_with_RuleError
      [where s = state_11 and b = b12_bad_height and P = example_params and now = 0
        and p = "node_of b11 1" and c = ErrBadHeight,
        THEN conjunct2, THEN conjunct2, THEN conjunct1]
  note admin = ProcessBlock_rejects_with_RuleError
      [where s = state_11 and b = "b12_admin 8" and P = example_params and now = 0
        and p = "node_of b11 1" and c = ErrInvalidAdminOp,
        THEN conjunct2, THEN conjunct2, THEN conjunct2, THEN conjunct1]
  note connecting = ProcessBlock_rejects_with_RuleError
      [where s = state_11 and b = b12_missing and P = example_params and now = 0
        and p = "node_of b11 1" and K = genesis_keys and c = ErrMissingTx,
        THEN conjunct2, THEN conjunct2, THEN conjunct2, THEN conjunct2, THEN conjunct1]
  note connected = ProcessBlock_rejects_with_RuleError
      [where s = state_11 and b = b12_rich and P = example_params and now = 0
        and p = "node_of b11 1" and K = genesis_keys and c = ErrBadCoinbaseValue
        and U = "[(111, 0) \<mapsto> coinbase_entry 1,
                  (112, 0) \<mapsto> \<lparr>entry_amount = 51, entry_coinbase = True, entry_height = 2\<rparr>]"
        and spent = "[[]]",
        THEN conjunct2, THEN conjunct2, THEN conjunct2, THEN conjunct2, THEN conjunct2,
        THEN conjunct1]
  note reorganizing = ProcessBlock_rejects_with_RuleError
      [where s = state_fork and b = b22_missing and P = open_params and now = 0
        and p = "node_of b21 1" and K = genesis_keys and c = ErrMissingTx
        and tip = "node_of b11 1" and n = "node_of b22_missing 6" and ?s1.0 = fork_22
        and ?s2.0 = fork_rewound and before = "[21]" and h = 22 and after = "[]"
        and ?s3.0 = fork_21 and bk = b22_missing,
        THEN conjunct2, THEN conjunct2, THEN conjunct2, THEN conjunct2, THEN conjunct2,
        THEN conjunct2, THEN conjunct1]
  note accepted = ProcessBlock_rejects_with_RuleError
      [where s = genesis_state and b = b11 and P = example_params and now = 0
        and s' = state_11 and m = True and o' = False,
        THEN conjunct2, THEN conjunct2, THEN conjunct2, THEN conjunct2, THEN conjunct2,
        THEN conjunct2, THEN conjunct2, THEN conjunct2, THEN conjunct2, THEN conjunct1]
  note test = ProcessBlock_rejects_with_RuleError
      [where code = ErrMissingTx and m' = False and o'' = False,
        THEN conjunct2, THEN conjunct2, THEN conjunct2, THEN conjunct2, THEN conjunct2,
        THEN conjunct2, THEN conjunct2, THEN conjunct2, THEN conjunct2, THEN conjunct2,
        THEN conjunct2]
  have a: "ProcessBlock example_params 0 state_11 b11
       = (state_11, False, False, Some (rule_violation ErrDuplicateBlock))"
    using duplicate eval_duplicate by (rule mp)
  have "\<not> known_block genesis_state (blk_hash b_empty)
      \<and> first_violation (structural_rules example_params) b_empty = Some ErrNoTransactions"
    using eval_empty(1,2) by (rule conjI)
  with structural
  have b: "ProcessBlock example_params 0 genesis_state b_empty
       = (genesis_state, False, False, Some (rule_violation ErrNoTransactions))"
    by (rule mp [THEN conjunct1])
  have "\<not> known_block state_11 (blk_hash b12_bad_height)
      \<and> first_violation (structural_rules example_params) b12_bad_height = None
      \<and> nodes state_11 (blk_prev b12_bad_height) = Some (node_of b11 1)
      \<and> checkBlockContext example_params 0 state_11 (node_of b11 1) b12_bad_height
          = Some ErrBadHeight"
    by (intro conjI) (rule eval_bad_height)+
  with contextual
  have c: "ProcessBlock example_params 0 state_11 b12_bad_height
       = (state_11, False, False, Some (rule_violation ErrBadHeight))"
    by (rule mp [THEN conjunct1])
  have "\<not> known_block state_11 (blk_hash (b12_admin 8))
      \<and> first_violation (structural_rules example_params) (b12_admin 8) = None
      \<and> nodes state_11 (blk_prev (b12_admin 8)) = Some (node_of b11 1)
      \<and> checkBlockContext example_params 0 state_11 (node_of b11 1) (b12_admin 8) = None
      \<and> apply_admin_ops example_params (node_keys (node_of b11 1))
            (block_admin_ops (b12_admin 8)) = Inl ErrInvalidAdminOp"
    by (intro conjI) (rule eval_admin_refused)+
  with admin
  have d: "ProcessBlock example_params 0 state_11 (b12_admin 8)
       = (state_11, False, False, Some (rule_violation ErrInvalidAdminOp))"
    by (rule mp [THEN conjunct1])
  have "\<not> known_block state_11 (blk_hash b12_missing)
      \<and> first_violation (structural_rules example_params) b12_missing = None
      \<and> nodes state_11 (blk_prev b12_missing) = Some (node_of b11 1)
      \<and> checkBlockContext example_params 0 state_11 (node_of b11 1) b12_missing = None
      \<and> apply_admin_ops example_params (node_keys (node_of b11 1))
            (block_admin_ops b12_missing) = Inr genesis_keys
      \<and> blk_prev b12_missing = best state_11
      \<and> connect_txs (node_height (node_of b11 1) + 1) (utxo state_11) (blk_txs b12_missing)
          = Inl ErrMissingTx"
    by (intro conjI) (rule eval_missing)+
  with connecting
  have e: "ProcessBlock example_params 0 state_11 b12_missing
       = (state_11, False, False, Some (rule_violation ErrMissingTx))"
    by (rule mp)
  have "\<not> known_block state_11 (blk_hash b12_rich)
      \<and> first_violation (structural_rules example_params) b12_rich = None
      \<and> nodes state_11 (blk_prev b12_rich) = Some (node_of b11 1)
      \<and> checkBlockContext example_params 0 state_11 (node_of b11 1) b12_rich = None
      \<and> apply_admin_ops example_params (node_keys (node_of b11 1))
            (block_admin_ops b12_rich) = Inr genesis_keys
      \<and> blk_prev b12_rich = best state_11
      \<and> connect_txs (node_height (node_of b11 1) + 1) (utxo state_11) (blk_txs b12_rich)
          = Inr ([(111, 0) \<mapsto> coinbase_entry 1,
                  (112, 0) \<mapsto> \<lparr>entry_amount = 51, entry_coinbase = True, entry_height = 2\<rparr>],
                 [[]])
      \<and> first_violation (connect_rules example_params)
          (utxo state_11, node_height (node_of b11 1) + 1, b12_rich) = Some ErrBadCoinbaseValue"
    by (intro conjI) (rule eval_rich)+
  with connected
  have f: "ProcessBlock example_params 0 state_11 b12_rich
       = (state_11, False, False, Some (rule_violation ErrBadCoinbaseValue))"
    by (rule mp [THEN conjunct1])
  have "\<not> known_block state_fork (blk_hash b22_missing)
      \<and> first_violation (structural_rules open_params) b22_missing = None
      \<and> nodes state_fork (blk_prev b22_missing) = Some (node_of b21 1)
      \<and> checkBlockContext open_params 0 state_fork (node_of b21 1) b22_missing = None
      \<and> apply_admin_ops open_params (node_keys (node_of b21 1)) (block_admin_ops b22_missing)
          = Inr genesis_keys
      \<and> nodes state_fork (best state_fork) = Some (node_of b11 1)
      \<and> blk_prev b22_missing \<noteq> best state_fork
      \<and> node_work (node_of b11 1)
          < node_work (node_of b21 1) + work_of_bits open_params (blk_bits b22_missing)
      \<and> node_of b22_missing 6 =
          \<lparr>node_hash = blk_hash b22_missing, node_parent = blk_prev b22_missing,
           node_height = node_height (node_of b21 1) + 1,
           node_work = node_work (node_of b21 1) + work_of_bits open_params (blk_bits b22_missing),
           node_keys = genesis_keys\<rparr>
      \<and> fork_22 =
          state_fork\<lparr>nodes := (nodes state_fork)(blk_hash b22_missing \<mapsto> node_of b22_missing 6),
                     bodies := (bodies state_fork)(blk_hash b22_missing \<mapsto> b22_missing)\<rparr>
      \<and> rewind (tip_height fork_22) (map node_hash (ancestry fork_22 (node_of b22_missing 6)))
          fork_22 = Inr fork_rewound
      \<and> rev (takeWhile (\<lambda>h. h \<noteq> best fork_rewound)
           (map node_hash (ancestry fork_22 (node_of b22_missing 6)))) = [21] @ 22 # []
      \<and> connect_path open_params fork_rewound [21] = Inr fork_21
      \<and> bodies fork_21 22 = Some b22_missing
      \<and> connect_block open_params fork_21 b22_missing = Inl (rule_violation ErrMissingTx)"
    by (intro conjI) (rule eval_reorg_fails eval_replay)+
  with reorganizing
  have g: "ProcessBlock open_params 0 state_fork b22_missing
       = (state_fork, False, False, Some (rule_violation ErrMissingTx))"
    by (rule mp [THEN conjunct1])
  from accepted eval_11
  have "(False \<longrightarrow> \<not> True \<and> nodes genesis_state (blk_prev b11) = None
            \<and> state_11 = add_orphan example_params 0 genesis_state b11)
      \<and> (\<not> False \<longrightarrow> nodes state_11 (blk_hash b11) \<noteq> None)"
    by (rule mp)
  then have i: "nodes state_11 (blk_hash b11) \<noteq> None"
    by simp
  show ?thesis
    apply (intro conjI)
                    apply (rule eval_duplicate)
                   apply (rule a)
                  apply (rule eval_empty(2))
                 apply (rule b)
                apply (rule eval_bad_height(4))
               apply (rule c)
              apply (rule eval_admin_refused(5))
             apply (rule d)
            apply (rule eval_missing(7))
           apply (rule e)
          apply (rule eval_rich(8))
         apply (rule f)
        apply (rule eval_replay(7))
       apply (rule g)
      apply (rule eval_11)
     apply (rule i)
    apply (rule test)
    done
qed




text \<open>
  Claim C7, as amended. A block that is not known yet, passes the structural
  validation, has a known parent, stands at the parent's height plus one and passes the
  context rules checked before the checkpoint: if a checkpoint is configured at its
  height and its hash differs, \<^verbatim>\<open>ProcessBlock\<close> rejects it with \<^verbatim>\<open>ErrBadCheckpoint\<close>,
  whatever its work and whatever the later rules say; if it does not differ from a
  checkpoint at its height and stands at or below the height of a checkpoint that the
  best chain has reached, \<^verbatim>\<open>ProcessBlock\<close> rejects it with \<^verbatim>\<open>ErrForkTooOld\<close>. The state
  is unchanged in both cases.
\<close>

theorem checkpoint_mismatch_rejected:
  assumes "\<not> known_block s (blk_hash b)"
    and "first_violation (structural_rules P) b = None"
    and "nodes s (blk_prev b) = Some p"
    and "blk_height b = node_height p + 1"
    and "first_violation (context_rules_pre P) (ancestry s p, now, b) = None"
  shows "(map_of (checkpoints P) (blk_height b) = Some h \<and> blk_hash b \<noteq> h \<longrightarrow>
           ProcessBlock P now s b = (s, False, False, Some (rule_violation ErrBadCheckpoint)))
       \<and> ((map_of (checkpoints P) (blk_height b) = None
             \<or> map_of (checkpoints P) (blk_height b) = Some (blk_hash b))
           \<and> (h', x) \<in> set (checkpoints P) \<and> h' \<le> tip_height s \<and> blk_height b \<le> h' \<longrightarrow>
           ProcessBlock P now s b = (s, False, False, Some (rule_violation ErrForkTooOld)))"
proof -
  have mismatch: "checkBlockContext P now s p b = Some ErrBadCheckpoint"
    if "map_of (checkpoints P) (blk_height b) = Some h" "blk_hash b \<noteq> h"
    using that assms(4,5)
    by (simp add: checkBlockContext_def context_rules_def first_violation_append)
  have too_old: "checkBlockContext P now s p b = Some ErrForkTooOld"
    if "map_of (checkpoints P) (blk_height b) = None
        \<or> map_of (checkpoints P) (blk_height b) = Some (blk_hash b)"
      "(h', x) \<in> set (checkpoints P)" "h' \<le> tip_height s" "blk_height b \<le> h'"
  proof -
    from that(2-4)
    have "\<exists>(h, x) \<in> set (checkpoints P). h \<le> tip_height s \<and> blk_height b \<le> h"
      by blast
    with that(1) assms(4,5) show ?thesis
      by (auto simp: checkBlockContext_def context_rules_def first_violation_append)
  qed
  show ?thesis
    using mismatch too_old ProcessBlock_context [OF assms(1-3)] by blast
qed

theorem checkpoint_mismatch_rejected_witness:
  "map_of (checkpoints example_params) (blk_height b42) = Some 12
   \<and> blk_hash b42 \<noteq> 12
   \<and> ProcessBlock example_params 0 state_11 b42
       = (state_11, False, False, Some (rule_violation ErrBadCheckpoint))
   \<and> 2 \<le> tip_height state_12
   \<and> blk_height b21 \<le> 2
   \<and> ProcessBlock example_params 0 state_12 b21
       = (state_12, False, False, Some (rule_violation ErrForkTooOld))"
proof -
  have "ProcessBlock example_params 0 state_11 b42
       = (state_11, False, False, Some (rule_violation ErrBadCheckpoint))"
    using checkpoint_mismatch_rejected [OF eval_checkpoint(1-5), where h = 12]
      eval_checkpoint(6,7)
    by blast
  moreover have "ProcessBlock example_params 0 state_12 b21
       = (state_12, False, False, Some (rule_violation ErrForkTooOld))"
    using checkpoint_mismatch_rejected [OF eval_fork_too_old(1-5), where h' = 2 and x = 12]
      eval_fork_too_old(6-9)
    by blast
  ultimately show ?thesis
    using eval_checkpoint(6,7) eval_fork_too_old(8,9) by blast
qed

text \<open>
  The claim as stated fails: a block at the checkpoint's height with another hash that
  has no transaction is rejected with the code of the structural rule, which is checked
  first. And a fork that diverges at the checkpoint's height is reported as a
  checkpoint mismatch, not as too old.
\<close>

theorem checkpoint_claim_counterexample:
  "blk_height b42_empty = 2
   \<and> map_of (checkpoints example_params) 2 = Some 12
   \<and> blk_hash b42_empty \<noteq> 12
   \<and> ProcessBlock example_params 0 state_11 b42_empty
       = (state_11, False, False, Some (rule_violation ErrNoTransactions))
   \<and> rule_violation ErrNoTransactions \<noteq> rule_violation ErrBadCheckpoint
   \<and> blk_height b42 = 2
   \<and> tip_height state_12 = 2
   \<and> ProcessBlock example_params 0 state_12 b42
       = (state_12, False, False, Some (rule_violation ErrBadCheckpoint))
   \<and> rule_violation ErrBadCheckpoint \<noteq> rule_violation ErrForkTooOld"
proof -
  have "ProcessBlock example_params 0 state_11 b42_empty
       = (state_11, False, False, Some (rule_violation ErrNoTransactions))"
    using eval_checkpoint_empty(1,2) by (rule ProcessBlock_structural)
  moreover have "map_of (checkpoints example_params) 2 = Some 12"
    by (simp add: example_params_def)
  moreover have "blk_height b42 = 2" "tip_height state_12 = 2"
    by (simp_all add: tip_height_def example_defs)
  moreover have "rule_violation ErrNoTransactions \<noteq> rule_violation ErrBadCheckpoint"
    "rule_violation ErrBadCheckpoint \<noteq> rule_violation ErrForkTooOld"
    by (simp_all add: rule_violation_inject ErrorCode_defs)
  ultimately show ?thesis
    using eval_checkpoint_empty(3,4) eval_checkpoint_at by blast
qed

text \<open>
  Claim C9. Let the best tip of a state be a connected block: its node and body are
  recorded, and the UTXO set and the journal entry of the block are what connecting its
  transactions to some UTXO set \<open>U0\<close> gave, with the rules of connection satisfied there.
  Then disconnecting the tip succeeds and gives \<open>U0\<close> and the snapshot of the parent; and
  connecting the same block again succeeds and gives exactly the state before the
  disconnect, hence its UTXO set and its admin-key snapshot. By \<open>connect_block_connected\<close>
  every state that \<open>connect_block\<close> returns is such a state.
\<close>

theorem disconnect_then_reconnect_restores:
  assumes tip: "nodes s (best s) = Some n"
    and body: "bodies s (best s) = Some b"
    and hash: "blk_hash b = best s"
    and spent: "journal s (best s) = Some spent"
    and conn: "connect_txs (node_height n) U0 (blk_txs b) = Inr (utxo s, spent)"
    and rules: "first_violation (connect_rules P) (U0, node_height n, b) = None"
  shows "\<exists>s'. disconnect_tip s = Inr s'
          \<and> utxo s' = U0 \<and> best s' = node_parent n
          \<and> AdminKeySets s' = map_option node_keys (nodes s (node_parent n))
          \<and> connect_block P s' b = Inr s"
proof -
  define s' where "s' = s\<lparr>best := node_parent n, utxo := U0,
    journal := (journal s)(best s := None)\<rparr>"
  have undo: "disconnect_txs (utxo s) (blk_txs b) spent = Some U0"
    using conn by (rule connect_txs_undo)
  have d: "disconnect_tip s = Inr s'"
    by (simp add: disconnect_tip_def tip body spent undo s'_def)
  have j: "(journal s)(best s \<mapsto> spent) = journal s"
    using spent by (simp add: fun_upd_idem)
  have c: "connect_block P s' b = Inr s"
    by (simp add: connect_block_def s'_def hash tip conn rules j)
  from d c show ?thesis
    by (simp add: s'_def AdminKeySets_def)
qed

theorem disconnect_then_reconnect_restores_witness:
  "ProcessBlock example_params 0 state_12 b13 = (state_13, True, False, None)
   \<and> connect_txs 3 (utxo state_12) (blk_txs b13) = Inr (utxo state_13, [[], [coinbase_entry 1]])
   \<and> utxo state_13 (111, 0) = None
   \<and> AdminKeySets state_13 = Some genesis_keys
   \<and> (\<exists>s'. disconnect_tip state_13 = Inr s'
          \<and> utxo s' = utxo state_12 \<and> utxo s' (111, 0) = Some (coinbase_entry 1)
          \<and> best s' = 12 \<and> AdminKeySets s' = Some genesis_keys
          \<and> connect_block example_params s' b13 = Inr state_13)"
proof -
  from disconnect_then_reconnect_restores [OF eval_tip_13]
  obtain s' where "disconnect_tip state_13 = Inr s'" "utxo s' = utxo state_12"
    "best s' = node_parent (node_of b13 3)"
    "AdminKeySets s' = map_option node_keys (nodes state_13 (node_parent (node_of b13 3)))"
    "connect_block example_params s' b13 = Inr state_13"
    by blast
  then have "disconnect_tip state_13 = Inr s'
      \<and> utxo s' = utxo state_12 \<and> utxo s' (111, 0) = Some (coinbase_entry 1)
      \<and> best s' = 12 \<and> AdminKeySets s' = Some genesis_keys
      \<and> connect_block example_params s' b13 = Inr state_13"
    by (simp add: eval_state_13)
  moreover have "connect_txs 3 (utxo state_12) (blk_txs b13)
      = Inr (utxo state_13, [[], [coinbase_entry 1]])"
    using eval_tip_13(5) by (simp only: eval_state_13(4))
  ultimately show ?thesis
    using eval_13 eval_state_13(2,6) by blast
qed

end
